theory Spec2Isabelle
  imports Main
begin

section \<open>Log levels and their names\<close>

text \<open>
  \<^verbatim>\<open>enum class LogLevel { DEBUG = 0, INFO = 1, WARN = 2, ERROR = 3, CRITICAL = 4 }\<close>.
  The comparison \<^verbatim>\<open>record.level < config_.min_level\<close> of the engine compares the
  underlying integers, given by \<open>level_rank\<close>.
\<close>

datatype LogLevel = DEBUG | INFO | WARN | ERROR | CRITICAL

fun level_rank :: "LogLevel \<Rightarrow> nat" where
  "level_rank DEBUG = 0"
| "level_rank INFO = 1"
| "level_rank WARN = 2"
| "level_rank ERROR = 3"
| "level_rank CRITICAL = 4"

text \<open>
  \<^verbatim>\<open>std::tolower(static_cast<unsigned char>(c))\<close> in the default "C" locale: the 26
  upper-case ASCII letters (65..90) move up by 32, every other byte stays.
\<close>

definition tolower_c :: "char \<Rightarrow> char" where
  "tolower_c c =
     (if 65 \<le> (of_char c :: nat) \<and> (of_char c :: nat) \<le> 90
      then char_of ((of_char c :: nat) + 32) else c)"

text \<open>
  \<open>parse_log_level\<close>: the argument is a \<^verbatim>\<open>const char*\<close>; \<open>None\<close> is the null pointer
  and \<open>Some s\<close> a C string with the characters \<open>s\<close> before its terminator.
\<close>

definition parse_log_level :: "string option \<Rightarrow> LogLevel" where
  "parse_log_level str =
     (case str of
        None \<Rightarrow> DEBUG
      | Some s \<Rightarrow>
          if s = [] then DEBUG
          else
            let level = map tolower_c s in
            if level = ''debug'' then DEBUG
            else if level = ''info'' then INFO
            else if level = ''warn'' \<or> level = ''warning'' then WARN
            else if level = ''error'' then ERROR
            else if level = ''critical'' then CRITICAL
            else DEBUG)"

text \<open>
  What "the name in any letter case" means, written independently of \<open>tolower_c\<close>:
  position by position the input carries the lower-case letter of the name or the
  upper-case letter 32 below it.
\<close>

definition is_lower_letter :: "char \<Rightarrow> bool" where
  "is_lower_letter b \<longleftrightarrow> 97 \<le> (of_char b :: nat) \<and> (of_char b :: nat) \<le> 122"

definition same_letter :: "char \<Rightarrow> char \<Rightarrow> bool" where
  "same_letter a b \<longleftrightarrow>
     a = b \<or> (is_lower_letter b \<and> (of_char a :: nat) + 32 = of_char b)"

definition any_case :: "string \<Rightarrow> string \<Rightarrow> bool" where
  "any_case s name \<longleftrightarrow> list_all2 same_letter s name"

section \<open>Configuration\<close>

text \<open>
  \<^verbatim>\<open>struct DrtraceConfig\<close> with its member initialisers. The \<^verbatim>\<open>size_t\<close> members are
  naturals, the \<^verbatim>\<open>std::chrono::milliseconds\<close> members their tick counts, \<^verbatim>\<open>int\<close> and
  \<^verbatim>\<open>long\<close> values are integers together with the range checks the library makes.
\<close>

record DrtraceConfig =
  application_id :: string
  daemon_url :: string
  service_name :: string
  enabled :: bool
  batch_size :: nat
  flush_interval :: int
  circuit_reset_interval :: int
  max_buffer_size :: nat
  min_level :: LogLevel
  http_timeout :: int
  retry_backoff :: int
  max_retries :: int

definition default_config :: DrtraceConfig where
  "default_config =
     \<lparr>application_id = [],
      daemon_url = ''http://localhost:8001/logs/ingest'',
      service_name = [],
      enabled = True,
      batch_size = 10,
      flush_interval = 5000,
      circuit_reset_interval = 30000,
      max_buffer_size = 10000,
      min_level = DEBUG,
      http_timeout = 1000,
      retry_backoff = 100,
      max_retries = 3\<rparr>"

subsection \<open>Numeric conversion: \<^verbatim>\<open>std::stol\<close> and \<^verbatim>\<open>std::stoi\<close>\<close>

text \<open>
  Both call \<^verbatim>\<open>strtol\<close> in base 10: leading white space is skipped, one sign is
  accepted, the longest run of decimal digits is converted and whatever follows is
  ignored. With no digit there the functions throw \<^verbatim>\<open>std::invalid_argument\<close>, with a
  value outside the result type \<^verbatim>\<open>std::out_of_range\<close>. \<^verbatim>\<open>long\<close> has 64 bits and
  \<^verbatim>\<open>int\<close> 32 bits (LP64).
\<close>

datatype conv_error = invalid_argument | out_of_range

definition LONG_MAX :: int where "LONG_MAX = 2 ^ 63 - 1"
definition LONG_MIN :: int where "LONG_MIN = - (2 ^ 63)"
definition INT_MAX :: int where "INT_MAX = 2 ^ 31 - 1"
definition INT_MIN :: int where "INT_MIN = - (2 ^ 31)"

definition isspace_c :: "char \<Rightarrow> bool" where
  "isspace_c c \<longleftrightarrow>
     (of_char c :: nat) = 32 \<or> (9 \<le> (of_char c :: nat) \<and> (of_char c :: nat) \<le> 13)"

definition isdigit_c :: "char \<Rightarrow> bool" where
  "isdigit_c c \<longleftrightarrow> 48 \<le> (of_char c :: nat) \<and> (of_char c :: nat) \<le> 57"

definition digits_value :: "string \<Rightarrow> int" where
  "digits_value ds = foldl (\<lambda>acc c. acc * 10 + (int (of_char c) - 48)) 0 ds"

definition strtol_parse :: "string \<Rightarrow> int option" where
  "strtol_parse s =
     (let s1 = dropWhile isspace_c s;
          neg = (s1 \<noteq> [] \<and> hd s1 = CHR ''-'');
          s2 = (if s1 \<noteq> [] \<and> (hd s1 = CHR ''-'' \<or> hd s1 = CHR ''+'') then tl s1 else s1);
          ds = takeWhile isdigit_c s2
      in if ds = [] then None
         else Some (if neg then - digits_value ds else digits_value ds))"

definition stol :: "string \<Rightarrow> conv_error + int" where
  "stol s =
     (case strtol_parse s of
        None \<Rightarrow> Inl invalid_argument
      | Some v \<Rightarrow> if v < LONG_MIN \<or> LONG_MAX < v then Inl out_of_range else Inr v)"

definition stoi :: "string \<Rightarrow> conv_error + int" where
  "stoi s =
     (case stol s of
        Inl e \<Rightarrow> Inl e
      | Inr v \<Rightarrow> if v < INT_MIN \<or> INT_MAX < v then Inl out_of_range else Inr v)"

subsection \<open>\<^verbatim>\<open>DrtraceConfig::from_env\<close>\<close>

text \<open>
  The environment is the function \<open>getenv\<close> (\<open>None\<close> for an unset variable). The
  application identifier found in \<^verbatim>\<open>_drtrace/config.json\<close> by
  \<^verbatim>\<open>detail::read_application_id_from_config\<close> is the argument \<open>app_id_from_config\<close>
  (empty when the file or the field is missing); the file access and the regular
  expressions are not part of this development. Each block of the function is one
  step below, in the order of the source; \<^verbatim>\<open>catch (...)\<close> keeps the configuration
  as it is.
\<close>

definition env_application_id :: "string option \<Rightarrow> string \<Rightarrow> DrtraceConfig \<Rightarrow> DrtraceConfig" where
  "env_application_id app_id app_id_from_config config =
     (case app_id of
        None \<Rightarrow>
          if app_id_from_config \<noteq> [] then config\<lparr>application_id := app_id_from_config\<rparr>
          else config\<lparr>application_id := ''my-app''\<rparr>
      | Some a \<Rightarrow> config\<lparr>application_id := a\<rparr>)"

definition env_daemon_url :: "string option \<Rightarrow> DrtraceConfig \<Rightarrow> DrtraceConfig" where
  "env_daemon_url v config =
     (case v of None \<Rightarrow> config | Some u \<Rightarrow> config\<lparr>daemon_url := u\<rparr>)"

definition env_service_name :: "string option \<Rightarrow> DrtraceConfig \<Rightarrow> DrtraceConfig" where
  "env_service_name v config =
     (case v of None \<Rightarrow> config | Some u \<Rightarrow> config\<lparr>service_name := u\<rparr>)"

definition env_enabled :: "string option \<Rightarrow> DrtraceConfig \<Rightarrow> DrtraceConfig" where
  "env_enabled v config =
     (case v of
        None \<Rightarrow> config
      | Some u \<Rightarrow> if u = ''false'' then config\<lparr>enabled := False\<rparr> else config)"

definition env_circuit_reset_ms :: "string option \<Rightarrow> DrtraceConfig \<Rightarrow> DrtraceConfig" where
  "env_circuit_reset_ms v config =
     (case v of
        None \<Rightarrow> config
      | Some u \<Rightarrow>
          (case stol u of
             Inl e \<Rightarrow> config
           | Inr ms \<Rightarrow> if ms > 0 then config\<lparr>circuit_reset_interval := ms\<rparr> else config))"

definition env_max_buffer_size :: "string option \<Rightarrow> DrtraceConfig \<Rightarrow> DrtraceConfig" where
  "env_max_buffer_size v config =
     (case v of
        None \<Rightarrow> config
      | Some u \<Rightarrow>
          (case stol u of
             Inl e \<Rightarrow> config
           | Inr sz \<Rightarrow> if sz \<ge> 0 then config\<lparr>max_buffer_size := nat sz\<rparr> else config))"

definition env_min_level :: "string option \<Rightarrow> DrtraceConfig \<Rightarrow> DrtraceConfig" where
  "env_min_level v config =
     (case v of
        None \<Rightarrow> config
      | Some u \<Rightarrow> config\<lparr>min_level := parse_log_level (Some u)\<rparr>)"

definition env_http_timeout_ms :: "string option \<Rightarrow> DrtraceConfig \<Rightarrow> DrtraceConfig" where
  "env_http_timeout_ms v config =
     (case v of
        None \<Rightarrow> config
      | Some u \<Rightarrow>
          (case stol u of
             Inl e \<Rightarrow> config
           | Inr ms \<Rightarrow> if ms > 0 then config\<lparr>http_timeout := ms\<rparr> else config))"

definition env_retry_backoff_ms :: "string option \<Rightarrow> DrtraceConfig \<Rightarrow> DrtraceConfig" where
  "env_retry_backoff_ms v config =
     (case v of
        None \<Rightarrow> config
      | Some u \<Rightarrow>
          (case stol u of
             Inl e \<Rightarrow> config
           | Inr ms \<Rightarrow> if ms > 0 then config\<lparr>retry_backoff := ms\<rparr> else config))"

definition env_max_retries :: "string option \<Rightarrow> DrtraceConfig \<Rightarrow> DrtraceConfig" where
  "env_max_retries v config =
     (case v of
        None \<Rightarrow> config
      | Some u \<Rightarrow>
          (case stoi u of
             Inl e \<Rightarrow> config
           | Inr retries \<Rightarrow> if retries \<ge> 0 then config\<lparr>max_retries := retries\<rparr> else config))"

definition from_env :: "(string \<Rightarrow> string option) \<Rightarrow> string \<Rightarrow> DrtraceConfig" where
  "from_env getenv app_id_from_config =
     (let config = default_config;
          config = env_application_id (getenv ''DRTRACE_APPLICATION_ID'') app_id_from_config config;
          config = env_daemon_url (getenv ''DRTRACE_DAEMON_URL'') config;
          config = env_service_name (getenv ''DRTRACE_SERVICE_NAME'') config;
          config = env_enabled (getenv ''DRTRACE_ENABLED'') config;
          config = env_circuit_reset_ms (getenv ''DRTRACE_CIRCUIT_RESET_MS'') config;
          config = env_max_buffer_size (getenv ''DRTRACE_MAX_BUFFER_SIZE'') config;
          config = env_min_level (getenv ''DRTRACE_MIN_LEVEL'') config;
          config = env_http_timeout_ms (getenv ''DRTRACE_HTTP_TIMEOUT_MS'') config;
          config = env_retry_backoff_ms (getenv ''DRTRACE_RETRY_BACKOFF_MS'') config;
          config = env_max_retries (getenv ''DRTRACE_MAX_RETRIES'') config
      in config)"

text \<open>Two environments used as concrete inputs: one variable set, and all set alike.\<close>

definition env_only :: "string \<Rightarrow> string \<Rightarrow> string \<Rightarrow> string option" where
  "env_only var v name = (if name = var then Some v else None)"

definition env_all :: "string \<Rightarrow> string \<Rightarrow> string option" where
  "env_all v name = Some v"

section \<open>HTTP transport and circuit breaker\<close>

text \<open>
  \<^verbatim>\<open>class HttpTransport\<close>. A private member \<^verbatim>\<open>x_\<close> of the source is the field \<open>x_m\<close>.
  \<open>curl_handle_m\<close> tells whether the handle is non-null; the two mutexes are not state
  of a sequential run and appear as the events \<open>Lock\<close> and \<open>Unlock\<close> of a call. The
  64-bit tick counts are integers; the sums and products formed from them are taken
  to stay in range, since signed overflow has no defined result in the source language.
\<close>

record HttpTransport =
  endpoint_m :: string
  application_id_m :: string
  max_retries_m :: int
  base_backoff_ms_m :: int
  http_timeout_m :: int
  curl_handle_m :: bool
  shutdown_flag_m :: bool
  circuit_open_m :: bool
  circuit_open_until_ms_m :: int
  circuit_reset_interval_m :: int

text \<open>
  The constructor; \<open>curl_ok\<close> says whether \<^verbatim>\<open>curl_easy_init()\<close> returned a handle.
\<close>

definition HttpTransport_init :: "DrtraceConfig \<Rightarrow> bool \<Rightarrow> HttpTransport" where
  "HttpTransport_init config curl_ok =
     \<lparr>endpoint_m = daemon_url config,
      application_id_m = application_id config,
      max_retries_m = max_retries config,
      base_backoff_ms_m = retry_backoff config,
      http_timeout_m = http_timeout config,
      curl_handle_m = curl_ok,
      shutdown_flag_m = False,
      circuit_open_m = False,
      circuit_open_until_ms_m = 0,
      circuit_reset_interval_m = circuit_reset_interval config\<rparr>"

text \<open>
  What one call of \<^verbatim>\<open>send_batch\<close> meets outside the object:
  \<^item> \<open>shutdown_stored k\<close>: the destructor, running on another thread, has stored
    \<^verbatim>\<open>true\<close> into \<^verbatim>\<open>shutdown_flag_\<close> before the \<open>k\<close>-th load of the flag by this call
    (load 0 on entry, load 1 after the handle lock is taken, load \<open>1 + a\<close> before
    attempt \<open>a\<close>);
  \<^item> \<open>now_check\<close> and \<open>now_open\<close>: the readings of the steady clock inside
    \<^verbatim>\<open>is_circuit_open\<close> and inside \<^verbatim>\<open>open_circuit\<close>;
  \<^item> \<open>perform a\<close>: the outcome of \<^verbatim>\<open>curl_easy_perform\<close> in attempt \<open>a\<close>, either a
    result other than \<^verbatim>\<open>CURLE_OK\<close> or \<^verbatim>\<open>CURLE_OK\<close> with the response code.
\<close>

datatype curl_result = CurlFailed | CurlOk int

record net =
  shutdown_stored :: "nat \<Rightarrow> bool"
  now_check :: int
  now_open :: int
  perform :: "int \<Rightarrow> curl_result"

text \<open>
  The effects of a call, in order: the batch handed to the transport, the handle lock
  taken and released, the request configured (URL, body, time-out; the content-type
  header is constant), a network attempt, a sleep of so many milliseconds.
\<close>

datatype event =
    SendBatch "string list"
  | Lock
  | Unlock
  | Setup string string int
  | Perform int
  | Sleep int

definition interfere :: "net \<Rightarrow> nat \<Rightarrow> HttpTransport \<Rightarrow> HttpTransport" where
  "interfere e k t = t\<lparr>shutdown_flag_m := shutdown_flag_m t \<or> shutdown_stored e k\<rparr>"

definition is_circuit_open :: "net \<Rightarrow> HttpTransport \<Rightarrow> bool" where
  "is_circuit_open e t =
     (if \<not> circuit_open_m t then False
      else if now_check e \<ge> circuit_open_until_ms_m t then False
      else True)"

definition open_circuit :: "net \<Rightarrow> HttpTransport \<Rightarrow> HttpTransport" where
  "open_circuit e t =
     t\<lparr>circuit_open_until_ms_m := now_open e + circuit_reset_interval_m t,
       circuit_open_m := True\<rparr>"

definition close_circuit :: "HttpTransport \<Rightarrow> HttpTransport" where
  "close_circuit t = t\<lparr>circuit_open_m := False\<rparr>"

text \<open>
  The payload loop \<^verbatim>\<open>for (size_t i = 0; i < log_records.size(); ++i)\<close>, with the
  stream as accumulator.
\<close>

function payload_loop :: "string list \<Rightarrow> nat \<Rightarrow> string \<Rightarrow> string" where
  "payload_loop log_records i payload =
     (if i < length log_records
      then payload_loop log_records (i + 1)
             ((if i > 0 then payload @ '','' else payload) @ log_records ! i)
      else payload)"
  by pat_completeness auto
termination
  by (relation "measure (\<lambda>(log_records, i, payload). length log_records - i)") auto

declare payload_loop.simps [simp del]

definition build_payload :: "string \<Rightarrow> string list \<Rightarrow> string" where
  \<open>build_payload app log_records =
     payload_loop log_records 0 (''{"application_id":"'' @ app @ ''","logs":['') @ '']}''\<close>

text \<open>
  The retry loop \<^verbatim>\<open>for (int attempt = 1; attempt <= max_retries_; ++attempt)\<close>. The
  result is the returned flag, the transport afterwards and the events of the loop.
\<close>

definition attempt_succeeded :: "curl_result \<Rightarrow> bool" where
  "attempt_succeeded res =
     (case res of
        CurlOk response_code \<Rightarrow> response_code \<ge> 200 \<and> response_code < 300
      | CurlFailed \<Rightarrow> False)"

function retry_loop :: "net \<Rightarrow> HttpTransport \<Rightarrow> int \<Rightarrow> bool \<times> HttpTransport \<times> event list" where
  "retry_loop e t attempt =
     (if attempt \<le> max_retries_m t then
        let t1 = interfere e (nat attempt + 1) t in
        if shutdown_flag_m t1 then (False, t1, [])
        else if attempt_succeeded (perform e attempt)
        then (True, close_circuit t1, [Perform attempt])
        else
          (case retry_loop e t1 (attempt + 1) of
             (ok, t2, evs) \<Rightarrow>
               (ok, t2,
                Perform attempt #
                (if attempt < max_retries_m t1
                 then [Sleep (base_backoff_ms_m t1 * attempt)] else []) @ evs))
      else (False, open_circuit e t, []))"
  by pat_completeness auto
termination
  by (relation "measure (\<lambda>(e, t, attempt). nat (max_retries_m t + 1 - attempt))")
    (auto simp: interfere_def)

declare retry_loop.simps [simp del]

definition send_batch :: "net \<Rightarrow> HttpTransport \<Rightarrow> string list \<Rightarrow> bool \<times> HttpTransport \<times> event list" where
  "send_batch e t0 log_records =
     (let t = interfere e 0 t0 in
      if shutdown_flag_m t then (False, t, [])
      else if log_records = [] then (False, t, [])
      else if is_circuit_open e t then (False, t, [])
      else
        let payload_str = build_payload (application_id_m t) log_records;
            t1 = interfere e 1 t
        in if shutdown_flag_m t1 \<or> \<not> curl_handle_m t1 then (False, t1, [Lock, Unlock])
           else
             (case retry_loop e t1 1 of
                (ok, t2, evs) \<Rightarrow>
                  (ok, t2,
                   [Lock, Setup (endpoint_m t1) payload_str (http_timeout_m t1)] @ evs @ [Unlock])))"

text \<open>Network attempts and request configurations among the events of a call.\<close>

fun is_perform :: "event \<Rightarrow> bool" where
  "is_perform (Perform a) = True"
| "is_perform _ = False"


text \<open>
  The wire format in the words of the specification: the record units in batch order
  with a comma between neighbours, inside the fixed frame of the object.
\<close>

fun comma_separated :: "string list \<Rightarrow> string" where
  "comma_separated [] = []"
| "comma_separated [r] = r"
| "comma_separated (r # rs) = r @ '','' @ comma_separated rs"

definition wire_payload :: "string \<Rightarrow> string list \<Rightarrow> string" where
  \<open>wire_payload app rs = ''{"application_id":"'' @ app @ ''","logs":['' @ comma_separated rs @ '']}''\<close>

text \<open>
  The events of attempts \<open>a\<close> up to \<open>s\<close> when all before \<open>s\<close> fail: each failed
  attempt is followed by its backoff sleep, attempt \<open>s\<close> ends the list.
\<close>

definition attempts_upto :: "int \<Rightarrow> int \<Rightarrow> int \<Rightarrow> event list" where
  "attempts_upto base a s = concat (map (\<lambda>k. [Perform k, Sleep (base * k)]) [a..s - 1]) @ [Perform s]"

text \<open>
  Concrete inputs: a network on which no destructor runs, with the outcome of every
  attempt and the two clock readings given; the same with the destructor storing the
  flag before load \<open>k0\<close>; and a transport built from the default configuration.
\<close>

definition net_quiet :: "(int \<Rightarrow> curl_result) \<Rightarrow> int \<Rightarrow> int \<Rightarrow> net" where
  "net_quiet p tc topen =
     \<lparr>shutdown_stored = (\<lambda>k. False), now_check = tc, now_open = topen, perform = p\<rparr>"

definition net_shutdown_from :: "nat \<Rightarrow> (int \<Rightarrow> curl_result) \<Rightarrow> net" where
  "net_shutdown_from k0 p =
     \<lparr>shutdown_stored = (\<lambda>k. k0 \<le> k), now_check = 0, now_open = 0, perform = p\<rparr>"

definition always_failing :: "int \<Rightarrow> curl_result" where
  "always_failing a = CurlFailed"

definition ok_from :: "int \<Rightarrow> int \<Rightarrow> curl_result" where
  "ok_from s a = (if a < s then CurlOk 503 else CurlOk 200)"

definition transport0 :: HttpTransport where
  "transport0 = HttpTransport_init (default_config\<lparr>application_id := ''app''\<rparr>) True"

definition transport_open :: HttpTransport where
  "transport_open = open_circuit (net_quiet always_failing 0 5000) transport0"

text \<open>
  A transport configured with \<^verbatim>\<open>max_retries = 0\<close>, new and after its first call at
  clock reading 5000.
\<close>

definition transport_zero :: HttpTransport where
  "transport_zero =
     HttpTransport_init (default_config\<lparr>application_id := ''app'', max_retries := 0\<rparr>) True"

definition transport_zero_open :: HttpTransport where
  "transport_zero_open = open_circuit (net_quiet (ok_from 1) 0 5000) transport_zero"

section \<open>Log engine\<close>

text \<open>
  \<^verbatim>\<open>struct SourceLocation\<close> and \<^verbatim>\<open>struct LogRecord\<close>. The member \<^verbatim>\<open>function\<close> is the
  field \<open>func\<close> and \<^verbatim>\<open>context\<close> the field \<open>context_kv\<close>, the entries of the
  \<^verbatim>\<open>std::map\<close> in the order its iteration visits them. \<open>timestamp\<close> is the tick
  count of the time point.
\<close>

record SourceLocation =
  filename :: string
  line :: int
  func :: string

record LogRecord =
  level :: LogLevel
  message :: string
  logger_name :: string
  timestamp :: int
  source :: SourceLocation
  context_kv :: "(string \<times> string) list"

text \<open>
  What serialisation takes from the platform: the text that the stream, set to
  \<^verbatim>\<open>std::fixed\<close> with precision 6, prints for the floating-point number of seconds
  computed from a time point, and the text printed for
  \<^verbatim>\<open>std::this_thread::get_id()\<close>. Neither the floating-point arithmetic nor the
  library's formatting of thread identifiers is modelled.
\<close>

record platform =
  ts_text :: "int \<Rightarrow> string"
  thread_id_text :: string

subsection \<open>\<^verbatim>\<open>escape_json\<close>\<close>

text \<open>
  \<^verbatim>\<open>std::hex << std::setw(4) << std::setfill('0') << static_cast<int>(c)\<close>: the
  lower-case hexadecimal digits of the value, filled on the left with \<open>0\<close> up to
  width 4. The branch is taken only below \<open>0x20\<close>, where the value is not negative.
\<close>

definition hex_digit :: "nat \<Rightarrow> char" where
  "hex_digit d = (if d < 10 then char_of (48 + d) else char_of (87 + d))"

function hex_of_nat :: "nat \<Rightarrow> string" where
  "hex_of_nat n =
     (if n < 16 then [hex_digit n] else hex_of_nat (n div 16) @ [hex_digit (n mod 16)])"
  by pat_completeness auto
termination
  by (relation "measure id") auto

declare hex_of_nat.simps [simp del]

definition setw_fill :: "nat \<Rightarrow> char \<Rightarrow> string \<Rightarrow> string" where
  "setw_fill w c s = replicate (w - length s) c @ s"

definition escape_char :: "char \<Rightarrow> string" where
  "escape_char c =
     (if c = CHR 0x22 then [CHR 0x5C, CHR 0x22]
      else if c = CHR 0x5C then [CHR 0x5C, CHR 0x5C]
      else if c = CHR 0x08 then [CHR 0x5C, CHR ''b'']
      else if c = CHR 0x0C then [CHR 0x5C, CHR ''f'']
      else if c = CHR 0x0A then [CHR 0x5C, CHR ''n'']
      else if c = CHR 0x0D then [CHR 0x5C, CHR ''r'']
      else if c = CHR 0x09 then [CHR 0x5C, CHR ''t'']
      else if (of_char c :: nat) < 0x20
      then [CHR 0x5C, CHR ''u''] @ setw_fill 4 CHR ''0'' (hex_of_nat (of_char c))
      else [c])"

fun escape_json :: "string \<Rightarrow> string" where
  "escape_json [] = []"
| "escape_json (c # str) = escape_char c @ escape_json str"

subsection \<open>\<^verbatim>\<open>serialize_record\<close>\<close>

fun level_str :: "LogLevel \<Rightarrow> string" where
  "level_str DEBUG = ''debug''"
| "level_str INFO = ''info''"
| "level_str WARN = ''warn''"
| "level_str ERROR = ''error''"
| "level_str CRITICAL = ''critical''"

text \<open>
  Decimal output of a positive \<^verbatim>\<open>int\<close> (the line number). The stream is taken
  to carry the classic locale, as it does unless the host program replaces the
  global one: no digit grouping.
\<close>

function dec_of_nat :: "nat \<Rightarrow> string" where
  "dec_of_nat n =
     (if n < 10 then [char_of (48 + n)] else dec_of_nat (n div 10) @ [char_of (48 + n mod 10)])"
  by pat_completeness auto
termination
  by (relation "measure id") auto

declare dec_of_nat.simps [simp del]

fun context_entries :: "(string \<times> string) list \<Rightarrow> string" where
  "context_entries [] = []"
| \<open>context_entries ((key, val) # kvs) =
     '',"'' @ escape_json key @ ''":"'' @ escape_json val @ ''"'' @ context_entries kvs\<close>

definition serialize_record :: "DrtraceConfig \<Rightarrow> platform \<Rightarrow> LogRecord \<Rightarrow> string" where
  \<open>serialize_record config p record =
     ''{'' @ ''"ts":'' @ ts_text p (timestamp record) @ '','' @
     ''"level":"'' @ escape_json (level_str (level record)) @ ''",'' @
     ''"message":"'' @ escape_json (message record) @ ''",'' @
     ''"application_id":"'' @ escape_json (application_id config) @ ''",'' @
     ''"module_name":"'' @ escape_json (logger_name record) @ ''"'' @
     (if service_name config \<noteq> []
      then '',"service_name":"'' @ escape_json (service_name config) @ ''"'' else []) @
     (if filename (source record) \<noteq> []
      then '',"file_path":"'' @ escape_json (filename (source record)) @ ''"'' else []) @
     (if line (source record) > 0
      then '',"line_no":'' @ dec_of_nat (nat (line (source record))) else []) @
     '',"context":{'' @ ''"language":"cpp"'' @
     '',"thread_id":"'' @ thread_id_text p @ ''"'' @
     context_entries (context_kv record) @
     ''}'' @ ''}''\<close>

subsection \<open>\<^verbatim>\<open>DrtraceCore\<close>\<close>

text \<open>
  The engine's state: its configuration, the transport it owns and the batch buffer.
  The flush thread and the mutex belong to the concurrent setting; a run here is a
  sequence of calls, each block under \<^verbatim>\<open>batch_mutex_\<close> being one step.
\<close>

record DrtraceCore =
  config_m :: DrtraceConfig
  transport_m :: "HttpTransport option"
  batch_m :: "string list"

definition DrtraceCore_init :: "DrtraceConfig \<Rightarrow> bool \<Rightarrow> DrtraceCore" where
  "DrtraceCore_init config curl_ok =
     \<lparr>config_m = config,
      transport_m = Some (HttpTransport_init config curl_ok),
      batch_m = []\<rparr>"

definition flush_internal :: "net \<Rightarrow> DrtraceCore \<Rightarrow> DrtraceCore \<times> event list" where
  "flush_internal e core =
     (if batch_m core = [] then (core, [])
      else
        let to_send = batch_m core;
            core1 = core\<lparr>batch_m := []\<rparr>
        in (case transport_m core1 of
              None \<Rightarrow> (core1, [])
            | Some t \<Rightarrow>
                (case send_batch e t to_send of
                   (ok, t', evs) \<Rightarrow> (core1\<lparr>transport_m := Some t'\<rparr>, SendBatch to_send # evs))))"

definition flush :: "net \<Rightarrow> DrtraceCore \<Rightarrow> DrtraceCore \<times> event list" where
  "flush e core = flush_internal e core"

text \<open>
  The block of \<^verbatim>\<open>log\<close> under the buffer lock: the new buffer and \<^verbatim>\<open>should_flush\<close>.
  \<^verbatim>\<open>batch_.erase(batch_.begin())\<close> runs only on a non-empty vector here.
\<close>

definition log_locked :: "platform \<Rightarrow> DrtraceCore \<Rightarrow> LogRecord \<Rightarrow> DrtraceCore \<times> bool" where
  "log_locked p core record =
     (let batch = batch_m core;
          batch = (if max_buffer_size (config_m core) > 0 \<and>
                      length batch \<ge> max_buffer_size (config_m core)
                   then tl batch else batch);
          json_record = serialize_record (config_m core) p record;
          batch = batch @ [json_record];
          should_flush = (length batch \<ge> batch_size (config_m core))
      in (core\<lparr>batch_m := batch\<rparr>, should_flush))"

definition log :: "platform \<Rightarrow> net \<Rightarrow> DrtraceCore \<Rightarrow> LogRecord \<Rightarrow> DrtraceCore \<times> event list" where
  "log p e core record =
     (if \<not> enabled (config_m core) then (core, [])
      else if level_rank (level record) < level_rank (min_level (config_m core)) then (core, [])
      else
        (case log_locked p core record of
           (core1, should_flush) \<Rightarrow>
             if should_flush then flush_internal e core1 else (core1, [])))"

text \<open>
  A sequence of \<^verbatim>\<open>log\<close> calls made one after the other on one thread; each call
  comes with what the network does should it flush.
\<close>

fun log_all :: "platform \<Rightarrow> DrtraceCore \<Rightarrow> (net \<times> LogRecord) list \<Rightarrow> DrtraceCore \<times> event list" where
  "log_all p core [] = (core, [])"
| "log_all p core ((e, record) # rest) =
     (case log p e core record of
        (core1, evs) \<Rightarrow>
          (case log_all p core1 rest of (core2, evs') \<Rightarrow> (core2, evs @ evs')))"

fun is_send_batch :: "event \<Rightarrow> bool" where
  "is_send_batch (SendBatch rs) = True"
| "is_send_batch _ = False"

text \<open>Concrete inputs: an engine on the transport above, and a record of a given level.\<close>

definition core0 :: DrtraceCore where
  "core0 = DrtraceCore_init (default_config\<lparr>application_id := ''app''\<rparr>) True"

definition record0 :: "LogLevel \<Rightarrow> string \<Rightarrow> LogRecord" where
  "record0 lv msg =
     \<lparr>level = lv, message = msg, logger_name = ''default'', timestamp = 0,
      source = \<lparr>filename = [], line = 0, func = []\<rparr>, context_kv = []\<rparr>"

definition platform0 :: platform where
  "platform0 = \<lparr>ts_text = (\<lambda>t. ''0.000000''), thread_id_text = ''1''\<rparr>"

definition core_bp :: "nat \<Rightarrow> nat \<Rightarrow> DrtraceCore" where
  "core_bp m bs = DrtraceCore_init (default_config\<lparr>batch_size := bs, max_buffer_size := m\<rparr>) True"

definition core_warn :: DrtraceCore where
  "core_warn = DrtraceCore_init (default_config\<lparr>batch_size := 100, min_level := WARN\<rparr>) True"

definition core_disabled :: DrtraceCore where
  "core_disabled = DrtraceCore_init (default_config\<lparr>enabled := False\<rparr>) True"

definition net0 :: net where
  "net0 = net_quiet always_failing 0 0"

section \<open>Reading a record unit back\<close>

text \<open>
  Modelled from the spec: the JSON reader that the round-trip property speaks of is
  not among the sources (the engine only writes JSON). It is modelled after the
  record object of the wire protocol: an object whose members are strings, numbers
  or, one level down, objects of strings, written without white space as
  \<open>serialize_record\<close> writes it. Strings are unescaped by the standard rules: the
  two-character escapes, and \<open>\u\<close> with four hexadecimal digits giving a code point
  that is emitted in UTF-8 (surrogate halves are refused, pairs are not modelled).
  The reader works on bytes and fails with \<open>None\<close> on anything else.
\<close>

datatype json = JString string | JNumber string | JObject "(string \<times> json) list"

definition hex_val :: "char \<Rightarrow> nat option" where
  "hex_val c =
     (let n = (of_char c :: nat) in
      if 48 \<le> n \<and> n \<le> 57 then Some (n - 48)
      else if 97 \<le> n \<and> n \<le> 102 then Some (n - 87)
      else if 65 \<le> n \<and> n \<le> 70 then Some (n - 55)
      else None)"

definition utf8_encode :: "nat \<Rightarrow> string option" where
  "utf8_encode n =
     (if n < 0x80 then Some [char_of n]
      else if n < 0x800 then Some [char_of (0xC0 + n div 64), char_of (0x80 + n mod 64)]
      else if 0xD800 \<le> n \<and> n < 0xE000 then None
      else Some [char_of (0xE0 + n div 4096), char_of (0x80 + (n div 64) mod 64),
                 char_of (0x80 + n mod 64)])"

definition unescape_simple :: "char \<Rightarrow> char option" where
  "unescape_simple e =
     (if e = CHR 0x22 then Some (CHR 0x22)
      else if e = CHR 0x5C then Some (CHR 0x5C)
      else if e = CHR ''/'' then Some (CHR ''/'')
      else if e = CHR ''b'' then Some (CHR 0x08)
      else if e = CHR ''f'' then Some (CHR 0x0C)
      else if e = CHR ''n'' then Some (CHR 0x0A)
      else if e = CHR ''r'' then Some (CHR 0x0D)
      else if e = CHR ''t'' then Some (CHR 0x09)
      else None)"

definition unescape_u :: "char \<Rightarrow> char \<Rightarrow> char \<Rightarrow> char \<Rightarrow> string option" where
  "unescape_u a b c d =
     (case (hex_val a, hex_val b, hex_val c, hex_val d) of
        (Some x, Some y, Some z, Some w) \<Rightarrow> utf8_encode (((x * 16 + y) * 16 + z) * 16 + w)
      | _ \<Rightarrow> None)"

text \<open>The characters after an opening quote, up to the closing one: value and rest.\<close>

fun read_string_body :: "string \<Rightarrow> (string \<times> string) option" where
  "read_string_body [] = None"
| "read_string_body (c # cs) =
     (if c = CHR 0x22 then Some ([], cs)
      else if c = CHR 0x5C then
        (case cs of
           [] \<Rightarrow> None
         | e # cs1 \<Rightarrow>
             if e = CHR ''u'' then
               (case cs1 of
                  a # b # c' # d # cs2 \<Rightarrow>
                    (case unescape_u a b c' d of
                       None \<Rightarrow> None
                     | Some bytes \<Rightarrow>
                         (case read_string_body cs2 of
                            None \<Rightarrow> None
                          | Some (v, rest) \<Rightarrow> Some (bytes @ v, rest)))
                | _ \<Rightarrow> None)
             else
               (case unescape_simple e of
                  None \<Rightarrow> None
                | Some x \<Rightarrow>
                    (case read_string_body cs1 of
                       None \<Rightarrow> None
                     | Some (v, rest) \<Rightarrow> Some (x # v, rest))))
      else if (of_char c :: nat) < 0x20 then None
      else
        (case read_string_body cs of
           None \<Rightarrow> None
         | Some (v, rest) \<Rightarrow> Some (c # v, rest)))"

definition read_string :: "string \<Rightarrow> (string \<times> string) option" where
  "read_string s =
     (case s of [] \<Rightarrow> None | c # cs \<Rightarrow> if c = CHR 0x22 then read_string_body cs else None)"

definition is_number_char :: "char \<Rightarrow> bool" where
  "is_number_char c \<longleftrightarrow>
     isdigit_c c \<or> c = CHR ''-'' \<or> c = CHR ''+'' \<or> c = CHR ''.'' \<or> c = CHR ''e'' \<or> c = CHR ''E''"

definition read_number :: "string \<Rightarrow> (string \<times> string) option" where
  "read_number s =
     (let n = takeWhile is_number_char s in
      if n = [] then None else Some (n, dropWhile is_number_char s))"

text \<open>Each reader leaves less than it was given; the recursions below rest on it.\<close>

lemma read_string_body_shorter:
  "read_string_body s = Some (v, rest) \<Longrightarrow> length rest < length s"
proof (induction s arbitrary: v rest rule: read_string_body.induct)
  case 1
  then show ?case by simp
next
  case (2 c cs)
  then show ?case
    by (auto split: if_splits list.splits option.splits prod.splits) fastforce+
qed

lemma read_string_shorter: "read_string s = Some (v, rest) \<Longrightarrow> length rest < length s"
  by (auto simp add: read_string_def split: list.splits if_splits dest: read_string_body_shorter)

text \<open>The members of an object of strings, after its opening brace.\<close>

function read_string_members :: "string \<Rightarrow> ((string \<times> json) list \<times> string) option" where
  "read_string_members s =
     (case read_string s of
        None \<Rightarrow> None
      | Some (k, s1) \<Rightarrow>
          (case s1 of
             [] \<Rightarrow> None
           | c # s2 \<Rightarrow>
               if c \<noteq> CHR '':'' then None
               else
                 (case read_string s2 of
                    None \<Rightarrow> None
                  | Some (v, s3) \<Rightarrow>
                      (case s3 of
                         [] \<Rightarrow> None
                       | d # s4 \<Rightarrow>
                           if d = CHR ''}'' then Some ([(k, JString v)], s4)
                           else if d = CHR '','' then
                             (case read_string_members s4 of
                                None \<Rightarrow> None
                              | Some (ms, rest) \<Rightarrow> Some ((k, JString v) # ms, rest))
                           else None))))"
  by pat_completeness auto
termination
proof (relation "measure length")
  show "wf (measure length)"
    by simp
next
  fix s :: string and x2 k s1 c s2 x2a v s3 d s4
  assume "read_string s = Some x2" "(k, s1) = x2" "s1 = c # s2" "read_string s2 = Some x2a"
    "(v, s3) = x2a" "s3 = d # s4"
  then have "length s1 < length s" "length s3 < length s2"
    by (auto dest: read_string_shorter)
  with \<open>s1 = c # s2\<close> \<open>s3 = d # s4\<close> show "(s4, s) \<in> measure length"
    by simp
qed

declare read_string_members.simps [simp del]


lemma read_string_members_shorter:
  "read_string_members s = Some (ms, rest) \<Longrightarrow> length rest < length s"
proof (induction s arbitrary: ms rest rule: read_string_members.induct)
  case (1 s)
  from "1.prems" obtain k s1 where a: "read_string s = Some (k, s1)"
    by (subst (asm) read_string_members.simps) (auto split: option.splits)
  from "1.prems" a obtain s2 where b: "s1 = CHR '':'' # s2"
    by (subst (asm) read_string_members.simps) (auto split: list.splits if_splits)
  from "1.prems" a b obtain v s3 where c: "read_string s2 = Some (v, s3)"
    by (subst (asm) read_string_members.simps) (auto split: option.splits)
  from "1.prems" a b c obtain d s4 where d: "s3 = d # s4"
    by (subst (asm) read_string_members.simps) (auto split: list.splits)
  have l: "length s4 < length s"
    using read_string_shorter [OF a] read_string_shorter [OF c] b d by simp
  show ?case
  proof (cases "d = CHR ''}''")
    case True
    with "1.prems" a b c d have "rest = s4"
      by (subst (asm) read_string_members.simps) simp
    with l show ?thesis
      by simp
  next
    case False
    with "1.prems" a b c d have dc: "d = CHR '',''"
      by (subst (asm) read_string_members.simps) (auto split: if_splits)
    with "1.prems" a b c d False obtain ms' where "read_string_members s4 = Some (ms', rest)"
      by (subst (asm) read_string_members.simps) (auto split: option.splits)
    with "1.IH" [OF a refl b _ c refl d False dc] b have "length rest < length s4"
      by simp
    with l show ?thesis
      by simp
  qed
qed

definition read_flat_object :: "string \<Rightarrow> ((string \<times> json) list \<times> string) option" where
  "read_flat_object s =
     (case s of
        [] \<Rightarrow> None
      | c # s1 \<Rightarrow>
          if c \<noteq> CHR ''{'' then None
          else
            (case s1 of
               [] \<Rightarrow> None
             | d # s2 \<Rightarrow> if d = CHR ''}'' then Some ([], s2) else read_string_members s1))"

definition read_value :: "string \<Rightarrow> (json \<times> string) option" where
  "read_value s =
     (case s of
        [] \<Rightarrow> None
      | c # cs \<Rightarrow>
          if c = CHR 0x22 then
            (case read_string_body cs of None \<Rightarrow> None | Some (v, rest) \<Rightarrow> Some (JString v, rest))
          else if c = CHR ''{'' then
            (case read_flat_object s of None \<Rightarrow> None | Some (ms, rest) \<Rightarrow> Some (JObject ms, rest))
          else
            (case read_number s of None \<Rightarrow> None | Some (n, rest) \<Rightarrow> Some (JNumber n, rest)))"

lemma read_number_shorter: "read_number s = Some (n, rest) \<Longrightarrow> length rest < length s"
proof -
  assume a: "read_number s = Some (n, rest)"
  then have n: "n = takeWhile is_number_char s" "rest = dropWhile is_number_char s" "n \<noteq> []"
    by (auto simp add: read_number_def Let_def split: if_splits)
  have "length n + length rest = length s"
    unfolding n(1,2) by (metis length_append takeWhile_dropWhile_id)
  with n(3) show ?thesis
    by (cases n) auto
qed

lemma read_flat_object_shorter:
  "read_flat_object s = Some (ms, rest) \<Longrightarrow> length rest < length s"
  by (auto simp add: read_flat_object_def split: list.splits if_splits
      dest!: read_string_members_shorter)

lemma read_value_shorter: "read_value s = Some (v, rest) \<Longrightarrow> length rest < length s"
  by (auto simp add: read_value_def split: list.splits if_splits option.splits
      dest!: read_string_body_shorter read_flat_object_shorter read_number_shorter)

text \<open>The members of the record object, after its opening brace.\<close>

function read_members :: "string \<Rightarrow> ((string \<times> json) list \<times> string) option" where
  "read_members s =
     (case read_string s of
        None \<Rightarrow> None
      | Some (k, s1) \<Rightarrow>
          (case s1 of
             [] \<Rightarrow> None
           | c # s2 \<Rightarrow>
               if c \<noteq> CHR '':'' then None
               else
                 (case read_value s2 of
                    None \<Rightarrow> None
                  | Some (v, s3) \<Rightarrow>
                      (case s3 of
                         [] \<Rightarrow> None
                       | d # s4 \<Rightarrow>
                           if d = CHR ''}'' then Some ([(k, v)], s4)
                           else if d = CHR '','' then
                             (case read_members s4 of
                                None \<Rightarrow> None
                              | Some (ms, rest) \<Rightarrow> Some ((k, v) # ms, rest))
                           else None))))"
  by pat_completeness auto
termination
proof (relation "measure length")
  show "wf (measure length)"
    by simp
next
  fix s :: string and x2 k s1 c s2 x2a v s3 d s4
  assume "read_string s = Some x2" "(k, s1) = x2" "s1 = c # s2" "read_value s2 = Some x2a"
    "(v, s3) = x2a" "s3 = d # s4"
  then have "length s1 < length s" "length s3 < length s2"
    by (auto dest: read_string_shorter read_value_shorter)
  with \<open>s1 = c # s2\<close> \<open>s3 = d # s4\<close> show "(s4, s) \<in> measure length"
    by simp
qed

declare read_members.simps [simp del]

definition read_record :: "string \<Rightarrow> (string \<times> json) list option" where
  "read_record s =
     (case s of
        [] \<Rightarrow> None
      | c # s1 \<Rightarrow>
          if c \<noteq> CHR ''{'' then None
          else
            (case s1 of
               [] \<Rightarrow> None
             | d # s2 \<Rightarrow>
                 if d = CHR ''}'' then (if s2 = [] then Some [] else None)
                 else
                   (case read_members s1 of
                      None \<Rightarrow> None
                    | Some (ms, rest) \<Rightarrow> if rest = [] then Some ms else None)))"

text \<open>
  The shape of the text that \<open>serialize_record\<close> writes, named for the proofs: a
  member is a quoted key, a colon and the text of its value; the members after the
  first come with a comma in front.
\<close>

definition quoted :: "string \<Rightarrow> string" where
  "quoted s = CHR 0x22 # escape_json s @ [CHR 0x22]"

definition member_text :: "string \<Rightarrow> string \<Rightarrow> string" where
  "member_text k vt = quoted k @ CHR '':'' # vt"

definition rest_text :: "(string \<times> string) list \<Rightarrow> string" where
  "rest_text ms = concat (map (\<lambda>(k, vt). CHR '','' # member_text k vt) ms)"

definition reads_as :: "string \<Rightarrow> json \<Rightarrow> bool" where
  "reads_as vt v \<longleftrightarrow>
     (\<forall>d rest. d = CHR '','' \<or> d = CHR ''}'' \<longrightarrow> read_value (vt @ d # rest) = Some (v, d # rest))"

text \<open>
  What is asked of the platform's two texts: the time stamp is a number token, the
  thread identifier has no quote, backslash or control character.
\<close>

definition number_text :: "string \<Rightarrow> bool" where
  "number_text s \<longleftrightarrow> s \<noteq> [] \<and> list_all is_number_char s"

definition plain_char :: "char \<Rightarrow> bool" where
  "plain_char c \<longleftrightarrow> c \<noteq> CHR 0x22 \<and> c \<noteq> CHR 0x5C \<and> 0x20 \<le> (of_char c :: nat)"

definition plain_text :: "string \<Rightarrow> bool" where
  "plain_text s \<longleftrightarrow> list_all plain_char s"

text \<open>A record and a configuration exercising every branch of the serializer.\<close>

definition cfg1 :: DrtraceConfig where
  "cfg1 = default_config\<lparr>application_id := ''my app'', service_name := ''svc''\<rparr>"

definition rec1 :: LogRecord where
  "rec1 =
     \<lparr>level = WARN,
      message = [CHR ''a'', CHR 0x22, CHR 0x5C, CHR 0x01, CHR 0x0A, CHR 0xC3, CHR 0xA9],
      logger_name = ''lg'', timestamp = 0,
      source = \<lparr>filename = ''f.cpp'', line = 120, func = ''main''\<rparr>,
      context_kv = [(''k1'', ''v1''), (''thread_id'', ''7'')]\<rparr>"

text \<open>
  The members that \<open>serialize_record\<close> writes after the time stamp, each with its
  key, the text of its value and the value that text stands for.
\<close>

definition string_member :: "string \<Rightarrow> string \<Rightarrow> string \<times> string \<times> json" where
  "string_member k s = (k, quoted s, JString s)"

definition context_text :: "platform \<Rightarrow> LogRecord \<Rightarrow> string" where
  \<open>context_text p record =
     ''{'' @ ''"language":"cpp"'' @ '',"thread_id":"'' @ thread_id_text p @ ''"'' @
     context_entries (context_kv record) @ ''}''\<close>

definition context_value :: "platform \<Rightarrow> LogRecord \<Rightarrow> json" where
  "context_value p record =
     JObject ((''language'', JString ''cpp'') # (''thread_id'', JString (thread_id_text p)) #
              map (\<lambda>(k, v). (k, JString v)) (context_kv record))"

definition record_members :: "DrtraceConfig \<Rightarrow> platform \<Rightarrow> LogRecord \<Rightarrow> (string \<times> string \<times> json) list" where
  "record_members config p record =
     [string_member ''level'' (level_str (level record)),
      string_member ''message'' (message record),
      string_member ''application_id'' (application_id config),
      string_member ''module_name'' (logger_name record)] @
     (if service_name config \<noteq> [] then [string_member ''service_name'' (service_name config)]
      else []) @
     (if filename (source record) \<noteq> []
      then [string_member ''file_path'' (filename (source record))] else []) @
     (if line (source record) > 0
      then [(''line_no'', dec_of_nat (nat (line (source record))),
             JNumber (dec_of_nat (nat (line (source record)))))]
      else []) @
     [(''context'', context_text p record, context_value p record)]"

section \<open>Properties of \<open>parse_log_level\<close>\<close>

lemma tolower_c_iff:
  assumes "is_lower_letter b"
  shows "tolower_c a = b \<longleftrightarrow> same_letter a b"
proof
  assume h: "tolower_c a = b"
  show "same_letter a b"
  proof (cases "65 \<le> (of_char a :: nat) \<and> (of_char a :: nat) \<le> 90")
    case True
    with h have "char_of ((of_char a :: nat) + 32) = b"
      by (simp add: tolower_c_def)
    then have "(of_char b :: nat) = ((of_char a :: nat) + 32) mod 256"
      by (auto simp: of_char_of)
    with True have "(of_char a :: nat) + 32 = of_char b"
      by simp
    with assms show ?thesis
      by (simp add: same_letter_def)
  next
    case False
    with h show ?thesis
      by (auto simp add: tolower_c_def same_letter_def)
  qed
next
  assume "same_letter a b"
  then consider "a = b" | "(of_char a :: nat) + 32 = of_char b"
    by (auto simp: same_letter_def)
  then show "tolower_c a = b"
  proof cases
    case 1
    with assms show ?thesis
      by (auto simp: tolower_c_def is_lower_letter_def)
  next
    case 2
    with assms have r: "65 \<le> (of_char a :: nat) \<and> (of_char a :: nat) \<le> 90"
      by (simp add: is_lower_letter_def)
    have "char_of ((of_char a :: nat) + 32) = b"
      using 2 by simp
    with r show ?thesis
      by (simp add: tolower_c_def)
  qed
qed

lemma lowered_eq_iff_any_case:
  "list_all is_lower_letter name \<Longrightarrow> map tolower_c s = name \<longleftrightarrow> any_case s name"
  unfolding any_case_def
proof (induction name arbitrary: s)
  case Nil
  then show ?case by simp
next
  case (Cons b bs)
  show ?case
  proof (cases s)
    case Nil
    then show ?thesis by simp
  next
    case (Cons a as)
    with Cons.prems Cons.IH [of as] show ?thesis
      by (simp add: tolower_c_iff)
  qed
qed

lemma level_names_lower:
  "list_all is_lower_letter ''debug''" "list_all is_lower_letter ''info''"
  "list_all is_lower_letter ''warn''" "list_all is_lower_letter ''warning''"
  "list_all is_lower_letter ''error''" "list_all is_lower_letter ''critical''"
  by (simp_all add: is_lower_letter_def)

lemmas lowered_level_names =
  lowered_eq_iff_any_case [OF level_names_lower(1)]
  lowered_eq_iff_any_case [OF level_names_lower(2)]
  lowered_eq_iff_any_case [OF level_names_lower(3)]
  lowered_eq_iff_any_case [OF level_names_lower(4)]
  lowered_eq_iff_any_case [OF level_names_lower(5)]
  lowered_eq_iff_any_case [OF level_names_lower(6)]

text \<open>
  C10. \<open>parse_log_level\<close> is a total function, so it returns a level for every
  argument. The null pointer and the empty string give DEBUG; each of the names
  debug, info, warn, error, critical, written in any mixture of upper and lower case,
  gives its level; warning in any case gives WARN; every string that is none of these
  six names in any case gives DEBUG.
\<close>

theorem parse_log_level_total_case_insensitive:
  "parse_log_level None = DEBUG \<and> parse_log_level (Some []) = DEBUG \<and>
   (any_case s ''debug'' \<longrightarrow> parse_log_level (Some s) = DEBUG) \<and>
   (any_case s ''info'' \<longrightarrow> parse_log_level (Some s) = INFO) \<and>
   (any_case s ''warn'' \<longrightarrow> parse_log_level (Some s) = WARN) \<and>
   (any_case s ''warning'' \<longrightarrow> parse_log_level (Some s) = WARN) \<and>
   (any_case s ''error'' \<longrightarrow> parse_log_level (Some s) = ERROR) \<and>
   (any_case s ''critical'' \<longrightarrow> parse_log_level (Some s) = CRITICAL) \<and>
   (\<not> any_case s ''debug'' \<and> \<not> any_case s ''info'' \<and> \<not> any_case s ''warn'' \<and>
    \<not> any_case s ''warning'' \<and> \<not> any_case s ''error'' \<and> \<not> any_case s ''critical''
      \<longrightarrow> parse_log_level (Some s) = DEBUG)"
  by (auto simp: parse_log_level_def Let_def lowered_level_names [symmetric])

theorem parse_log_level_witness:
  "any_case ''WaRnInG'' ''warning'' \<and> parse_log_level (Some ''WaRnInG'') = WARN \<and>
   any_case ''CRITICAL'' ''critical'' \<and> parse_log_level (Some ''CRITICAL'') = CRITICAL \<and>
   any_case ''Info'' ''info'' \<and> parse_log_level (Some ''Info'') = INFO \<and>
   \<not> any_case ''verbose'' ''debug'' \<and> \<not> any_case ''verbose'' ''info'' \<and>
   \<not> any_case ''verbose'' ''warn'' \<and> \<not> any_case ''verbose'' ''warning'' \<and>
   \<not> any_case ''verbose'' ''error'' \<and> \<not> any_case ''verbose'' ''critical'' \<and>
   parse_log_level (Some ''verbose'') = DEBUG"
  using parse_log_level_total_case_insensitive [of "''WaRnInG''"]
    parse_log_level_total_case_insensitive [of "''CRITICAL''"]
    parse_log_level_total_case_insensitive [of "''Info''"]
    parse_log_level_total_case_insensitive [of "''verbose''"]
  by (simp add: any_case_def same_letter_def is_lower_letter_def)

section \<open>Properties of \<open>from_env\<close>\<close>

text \<open>A step leaves the fields of the other steps alone.\<close>

lemma circuit_reset_interval_kept [simp]:
  "circuit_reset_interval (env_application_id v a config) = circuit_reset_interval config"
  "circuit_reset_interval (env_daemon_url v config) = circuit_reset_interval config"
  "circuit_reset_interval (env_service_name v config) = circuit_reset_interval config"
  "circuit_reset_interval (env_enabled v config) = circuit_reset_interval config"
  "circuit_reset_interval (env_max_buffer_size v config) = circuit_reset_interval config"
  "circuit_reset_interval (env_min_level v config) = circuit_reset_interval config"
  "circuit_reset_interval (env_http_timeout_ms v config) = circuit_reset_interval config"
  "circuit_reset_interval (env_retry_backoff_ms v config) = circuit_reset_interval config"
  "circuit_reset_interval (env_max_retries v config) = circuit_reset_interval config"
  by (simp_all add: env_application_id_def env_daemon_url_def env_service_name_def env_enabled_def env_max_buffer_size_def env_min_level_def env_http_timeout_ms_def env_retry_backoff_ms_def env_max_retries_def
      split: option.splits sum.splits)

lemma max_buffer_size_kept [simp]:
  "max_buffer_size (env_application_id v a config) = max_buffer_size config"
  "max_buffer_size (env_daemon_url v config) = max_buffer_size config"
  "max_buffer_size (env_service_name v config) = max_buffer_size config"
  "max_buffer_size (env_enabled v config) = max_buffer_size config"
  "max_buffer_size (env_circuit_reset_ms v config) = max_buffer_size config"
  "max_buffer_size (env_min_level v config) = max_buffer_size config"
  "max_buffer_size (env_http_timeout_ms v config) = max_buffer_size config"
  "max_buffer_size (env_retry_backoff_ms v config) = max_buffer_size config"
  "max_buffer_size (env_max_retries v config) = max_buffer_size config"
  by (simp_all add: env_application_id_def env_daemon_url_def env_service_name_def env_enabled_def env_circuit_reset_ms_def env_min_level_def env_http_timeout_ms_def env_retry_backoff_ms_def env_max_retries_def
      split: option.splits sum.splits)

lemma http_timeout_kept [simp]:
  "http_timeout (env_application_id v a config) = http_timeout config"
  "http_timeout (env_daemon_url v config) = http_timeout config"
  "http_timeout (env_service_name v config) = http_timeout config"
  "http_timeout (env_enabled v config) = http_timeout config"
  "http_timeout (env_circuit_reset_ms v config) = http_timeout config"
  "http_timeout (env_max_buffer_size v config) = http_timeout config"
  "http_timeout (env_min_level v config) = http_timeout config"
  "http_timeout (env_retry_backoff_ms v config) = http_timeout config"
  "http_timeout (env_max_retries v config) = http_timeout config"
  by (simp_all add: env_application_id_def env_daemon_url_def env_service_name_def env_enabled_def env_circuit_reset_ms_def env_max_buffer_size_def env_min_level_def env_retry_backoff_ms_def env_max_retries_def
      split: option.splits sum.splits)

lemma retry_backoff_kept [simp]:
  "retry_backoff (env_application_id v a config) = retry_backoff config"
  "retry_backoff (env_daemon_url v config) = retry_backoff config"
  "retry_backoff (env_service_name v config) = retry_backoff config"
  "retry_backoff (env_enabled v config) = retry_backoff config"
  "retry_backoff (env_circuit_reset_ms v config) = retry_backoff config"
  "retry_backoff (env_max_buffer_size v config) = retry_backoff config"
  "retry_backoff (env_min_level v config) = retry_backoff config"
  "retry_backoff (env_http_timeout_ms v config) = retry_backoff config"
  "retry_backoff (env_max_retries v config) = retry_backoff config"
  by (simp_all add: env_application_id_def env_daemon_url_def env_service_name_def env_enabled_def env_circuit_reset_ms_def env_max_buffer_size_def env_min_level_def env_http_timeout_ms_def env_max_retries_def
      split: option.splits sum.splits)

lemma max_retries_kept [simp]:
  "max_retries (env_application_id v a config) = max_retries config"
  "max_retries (env_daemon_url v config) = max_retries config"
  "max_retries (env_service_name v config) = max_retries config"
  "max_retries (env_enabled v config) = max_retries config"
  "max_retries (env_circuit_reset_ms v config) = max_retries config"
  "max_retries (env_max_buffer_size v config) = max_retries config"
  "max_retries (env_min_level v config) = max_retries config"
  "max_retries (env_http_timeout_ms v config) = max_retries config"
  "max_retries (env_retry_backoff_ms v config) = max_retries config"
  by (simp_all add: env_application_id_def env_daemon_url_def env_service_name_def env_enabled_def env_circuit_reset_ms_def env_max_buffer_size_def env_min_level_def env_http_timeout_ms_def env_retry_backoff_ms_def
      split: option.splits sum.splits)

lemma circuit_reset_ignored:
  assumes g: "getenv ''DRTRACE_CIRCUIT_RESET_MS'' = Some v" and h: "\<forall>ms. stol v = Inr ms \<longrightarrow> ms \<le> 0"
  shows "circuit_reset_interval (from_env getenv a) = circuit_reset_interval default_config"
proof (cases "stol v")
  case (Inl e)
  with g show ?thesis
    by (simp add: from_env_def Let_def env_circuit_reset_ms_def)
next
  case (Inr n)
  with h have "n \<le> 0"
    by simp
  with g Inr show ?thesis
    by (simp add: from_env_def Let_def env_circuit_reset_ms_def)
qed

lemma circuit_reset_taken:
  assumes g: "getenv ''DRTRACE_CIRCUIT_RESET_MS'' = Some v" and h: "stol v = Inr ms" and p: "0 < ms"
  shows "circuit_reset_interval (from_env getenv a) = ms"
  using g h p by (simp add: from_env_def Let_def env_circuit_reset_ms_def)

lemma max_buffer_ignored:
  assumes g: "getenv ''DRTRACE_MAX_BUFFER_SIZE'' = Some v" and h: "\<forall>sz. stol v = Inr sz \<longrightarrow> sz < 0"
  shows "max_buffer_size (from_env getenv a) = max_buffer_size default_config"
proof (cases "stol v")
  case (Inl e)
  with g show ?thesis
    by (simp add: from_env_def Let_def env_max_buffer_size_def)
next
  case (Inr n)
  with h have "n < 0"
    by simp
  with g Inr show ?thesis
    by (simp add: from_env_def Let_def env_max_buffer_size_def)
qed

lemma max_buffer_taken:
  assumes g: "getenv ''DRTRACE_MAX_BUFFER_SIZE'' = Some v" and h: "stol v = Inr sz" and p: "0 \<le> sz"
  shows "max_buffer_size (from_env getenv a) = nat sz"
  using g h p by (simp add: from_env_def Let_def env_max_buffer_size_def)

lemma http_timeout_ignored:
  assumes g: "getenv ''DRTRACE_HTTP_TIMEOUT_MS'' = Some v" and h: "\<forall>ms. stol v = Inr ms \<longrightarrow> ms \<le> 0"
  shows "http_timeout (from_env getenv a) = http_timeout default_config"
proof (cases "stol v")
  case (Inl e)
  with g show ?thesis
    by (simp add: from_env_def Let_def env_http_timeout_ms_def)
next
  case (Inr n)
  with h have "n \<le> 0"
    by simp
  with g Inr show ?thesis
    by (simp add: from_env_def Let_def env_http_timeout_ms_def)
qed

lemma http_timeout_taken:
  assumes g: "getenv ''DRTRACE_HTTP_TIMEOUT_MS'' = Some v" and h: "stol v = Inr ms" and p: "0 < ms"
  shows "http_timeout (from_env getenv a) = ms"
  using g h p by (simp add: from_env_def Let_def env_http_timeout_ms_def)

lemma retry_backoff_ignored:
  assumes g: "getenv ''DRTRACE_RETRY_BACKOFF_MS'' = Some v" and h: "\<forall>ms. stol v = Inr ms \<longrightarrow> ms \<le> 0"
  shows "retry_backoff (from_env getenv a) = retry_backoff default_config"
proof (cases "stol v")
  case (Inl e)
  with g show ?thesis
    by (simp add: from_env_def Let_def env_retry_backoff_ms_def)
next
  case (Inr n)
  with h have "n \<le> 0"
    by simp
  with g Inr show ?thesis
    by (simp add: from_env_def Let_def env_retry_backoff_ms_def)
qed

lemma retry_backoff_taken:
  assumes g: "getenv ''DRTRACE_RETRY_BACKOFF_MS'' = Some v" and h: "stol v = Inr ms" and p: "0 < ms"
  shows "retry_backoff (from_env getenv a) = ms"
  using g h p by (simp add: from_env_def Let_def env_retry_backoff_ms_def)

lemma max_retries_ignored:
  assumes g: "getenv ''DRTRACE_MAX_RETRIES'' = Some v" and h: "\<forall>n. stoi v = Inr n \<longrightarrow> n < 0"
  shows "max_retries (from_env getenv a) = max_retries default_config"
proof (cases "stoi v")
  case (Inl e)
  with g show ?thesis
    by (simp add: from_env_def Let_def env_max_retries_def)
next
  case (Inr n)
  with h have "n < 0"
    by simp
  with g Inr show ?thesis
    by (simp add: from_env_def Let_def env_max_retries_def)
qed

lemma max_retries_taken:
  assumes g: "getenv ''DRTRACE_MAX_RETRIES'' = Some v" and h: "stoi v = Inr n" and p: "0 \<le> n"
  shows "max_retries (from_env getenv a) = n"
  using g h p by (simp add: from_env_def Let_def env_max_retries_def)

lemma stol_examples:
  "stol ''0'' = Inr 0" "stol ''abc'' = Inl invalid_argument" "stol ''-5'' = Inr (- 5)"
  "stol ''12abc'' = Inr 12" "stol ''99999999999999999999'' = Inl out_of_range"
  "stol '' +7'' = Inr 7" "stol [] = Inl invalid_argument"
  by (simp_all add: stol_def strtol_parse_def isspace_c_def isdigit_c_def digits_value_def
      LONG_MIN_def LONG_MAX_def)

lemma stoi_examples:
  "stoi ''0'' = Inr 0" "stoi ''abc'' = Inl invalid_argument" "stoi ''-5'' = Inr (- 5)"
  "stoi ''12abc'' = Inr 12"
  by (simp_all add: stoi_def stol_examples INT_MIN_def INT_MAX_def)

text \<open>
  C9, as stated, fails. With \<^verbatim>\<open>DRTRACE_MAX_RETRIES=0\<close> the value converts to the
  non-positive number 0 and is taken, so the retry count is 0 and not the default 3:
  the maximum buffer size is not the only setting that accepts 0. And a value that is
  not a number as a whole is not always ignored: \<^verbatim>\<open>12abc\<close> converts to 12, its
  leading digits, and is taken.
\<close>

theorem from_env_max_retries_zero_counterexample:
  "stoi ''0'' = Inr 0 \<and> \<not> (0 :: int) > 0 \<and>
   max_retries (from_env (env_only ''DRTRACE_MAX_RETRIES'' ''0'') []) = 0 \<and>
   max_retries default_config = 3 \<and>
   stol ''12abc'' = Inr 12 \<and>
   http_timeout (from_env (env_only ''DRTRACE_HTTP_TIMEOUT_MS'' ''12abc'') []) = 12 \<and>
   http_timeout default_config = 1000"
  by (simp add: from_env_def env_max_retries_def env_http_timeout_ms_def env_only_def
      stoi_examples stol_examples default_config_def)

text \<open>
  C9 amended. For each of the five numeric settings the value of its variable is
  ignored, and the compiled-in default retained, exactly when the conversion
  (\<open>stol\<close>, for the retry count \<open>stoi\<close>) yields no number or a number outside the
  accepted range; otherwise the number is taken. The accepted range is the positive
  numbers for the circuit reset interval, the HTTP time-out and the retry backoff,
  and the numbers from 0 on for the maximum buffer size and for the maximum retry
  count.
\<close>

theorem from_env_invalid_values_ignored:
  "(getenv ''DRTRACE_CIRCUIT_RESET_MS'' = Some v \<and> (\<forall>ms. stol v = Inr ms \<longrightarrow> ms \<le> 0)
      \<longrightarrow> circuit_reset_interval (from_env getenv a) = circuit_reset_interval default_config) \<and>
   (getenv ''DRTRACE_CIRCUIT_RESET_MS'' = Some v \<and> stol v = Inr n \<and> 0 < n
      \<longrightarrow> circuit_reset_interval (from_env getenv a) = n) \<and>
   (getenv ''DRTRACE_MAX_BUFFER_SIZE'' = Some v \<and> (\<forall>sz. stol v = Inr sz \<longrightarrow> sz < 0)
      \<longrightarrow> max_buffer_size (from_env getenv a) = max_buffer_size default_config) \<and>
   (getenv ''DRTRACE_MAX_BUFFER_SIZE'' = Some v \<and> stol v = Inr n \<and> 0 \<le> n
      \<longrightarrow> max_buffer_size (from_env getenv a) = nat n) \<and>
   (getenv ''DRTRACE_HTTP_TIMEOUT_MS'' = Some v \<and> (\<forall>ms. stol v = Inr ms \<longrightarrow> ms \<le> 0)
      \<longrightarrow> http_timeout (from_env getenv a) = http_timeout default_config) \<and>
   (getenv ''DRTRACE_HTTP_TIMEOUT_MS'' = Some v \<and> stol v = Inr n \<and> 0 < n
      \<longrightarrow> http_timeout (from_env getenv a) = n) \<and>
   (getenv ''DRTRACE_RETRY_BACKOFF_MS'' = Some v \<and> (\<forall>ms. stol v = Inr ms \<longrightarrow> ms \<le> 0)
      \<longrightarrow> retry_backoff (from_env getenv a) = retry_backoff default_config) \<and>
   (getenv ''DRTRACE_RETRY_BACKOFF_MS'' = Some v \<and> stol v = Inr n \<and> 0 < n
      \<longrightarrow> retry_backoff (from_env getenv a) = n) \<and>
   (getenv ''DRTRACE_MAX_RETRIES'' = Some v \<and> (\<forall>r. stoi v = Inr r \<longrightarrow> r < 0)
      \<longrightarrow> max_retries (from_env getenv a) = max_retries default_config) \<and>
   (getenv ''DRTRACE_MAX_RETRIES'' = Some v \<and> stoi v = Inr n \<and> 0 \<le> n
      \<longrightarrow> max_retries (from_env getenv a) = n)"
proof (intro conjI impI; elim conjE)
  show "circuit_reset_interval (from_env getenv a) = circuit_reset_interval default_config"
    if "getenv ''DRTRACE_CIRCUIT_RESET_MS'' = Some v" "\<forall>ms. stol v = Inr ms \<longrightarrow> ms \<le> 0"
    using that by (rule circuit_reset_ignored)
  show "circuit_reset_interval (from_env getenv a) = n"
    if "getenv ''DRTRACE_CIRCUIT_RESET_MS'' = Some v" "stol v = Inr n" "0 < n"
    using that by (rule circuit_reset_taken)
  show "max_buffer_size (from_env getenv a) = max_buffer_size default_config"
    if "getenv ''DRTRACE_MAX_BUFFER_SIZE'' = Some v" "\<forall>sz. stol v = Inr sz \<longrightarrow> sz < 0"
    using that by (rule max_buffer_ignored)
  show "max_buffer_size (from_env getenv a) = nat n"
    if "getenv ''DRTRACE_MAX_BUFFER_SIZE'' = Some v" "stol v = Inr n" "0 \<le> n"
    using that by (rule max_buffer_taken)
  show "http_timeout (from_env getenv a) = http_timeout default_config"
    if "getenv ''DRTRACE_HTTP_TIMEOUT_MS'' = Some v" "\<forall>ms. stol v = Inr ms \<longrightarrow> ms \<le> 0"
    using that by (rule http_timeout_ignored)
  show "http_timeout (from_env getenv a) = n"
    if "getenv ''DRTRACE_HTTP_TIMEOUT_MS'' = Some v" "stol v = Inr n" "0 < n"
    using that by (rule http_timeout_taken)
  show "retry_backoff (from_env getenv a) = retry_backoff default_config"
    if "getenv ''DRTRACE_RETRY_BACKOFF_MS'' = Some v" "\<forall>ms. stol v = Inr ms \<longrightarrow> ms \<le> 0"
    using that by (rule retry_backoff_ignored)
  show "retry_backoff (from_env getenv a) = n"
    if "getenv ''DRTRACE_RETRY_BACKOFF_MS'' = Some v" "stol v = Inr n" "0 < n"
    using that by (rule retry_backoff_taken)
  show "max_retries (from_env getenv a) = max_retries default_config"
    if "getenv ''DRTRACE_MAX_RETRIES'' = Some v" "\<forall>r. stoi v = Inr r \<longrightarrow> r < 0"
    using that by (rule max_retries_ignored)
  show "max_retries (from_env getenv a) = n"
    if "getenv ''DRTRACE_MAX_RETRIES'' = Some v" "stoi v = Inr n" "0 \<le> n"
    using that by (rule max_retries_taken)
qed

theorem from_env_invalid_values_ignored_witness:
  "stol ''abc'' = Inl invalid_argument \<and> stoi ''abc'' = Inl invalid_argument \<and>
   circuit_reset_interval (from_env (env_all ''abc'') []) = 30000 \<and>
   max_buffer_size (from_env (env_all ''abc'') []) = 10000 \<and>
   http_timeout (from_env (env_all ''abc'') []) = 1000 \<and>
   retry_backoff (from_env (env_all ''abc'') []) = 100 \<and>
   max_retries (from_env (env_all ''abc'') []) = 3 \<and>
   stol ''-5'' = Inr (- 5) \<and> stoi ''-5'' = Inr (- 5) \<and>
   circuit_reset_interval (from_env (env_all ''-5'') []) = 30000 \<and>
   max_buffer_size (from_env (env_all ''-5'') []) = 10000 \<and>
   http_timeout (from_env (env_all ''-5'') []) = 1000 \<and>
   retry_backoff (from_env (env_all ''-5'') []) = 100 \<and>
   max_retries (from_env (env_all ''-5'') []) = 3 \<and>
   stol ''0'' = Inr 0 \<and> stoi ''0'' = Inr 0 \<and>
   circuit_reset_interval (from_env (env_all ''0'') []) = 30000 \<and>
   max_buffer_size (from_env (env_all ''0'') []) = 0 \<and>
   http_timeout (from_env (env_all ''0'') []) = 1000 \<and>
   retry_backoff (from_env (env_all ''0'') []) = 100 \<and>
   max_retries (from_env (env_all ''0'') []) = 0 \<and>
   stol ''12abc'' = Inr 12 \<and> stoi ''12abc'' = Inr 12 \<and>
   circuit_reset_interval (from_env (env_all ''12abc'') []) = 12 \<and>
   max_buffer_size (from_env (env_all ''12abc'') []) = 12 \<and>
   http_timeout (from_env (env_all ''12abc'') []) = 12 \<and>
   retry_backoff (from_env (env_all ''12abc'') []) = 12 \<and>
   max_retries (from_env (env_all ''12abc'') []) = 12"
  using from_env_invalid_values_ignored [of "env_all ''abc''" "''abc''" "[]" 0]
    from_env_invalid_values_ignored [of "env_all ''-5''" "''-5''" "[]" 0]
    from_env_invalid_values_ignored [of "env_all ''0''" "''0''" "[]" 0]
    from_env_invalid_values_ignored [of "env_all ''12abc''" "''12abc''" "[]" 12]
  by (simp add: env_all_def stol_examples stoi_examples default_config_def)

section \<open>Properties of the transport\<close>

lemma comma_separated_Cons: "comma_separated (r # rs) = r @ concat (map ((#) CHR '','') rs)"
  by (induction rs arbitrary: r) auto

lemma payload_loop_pos:
  "0 < i \<Longrightarrow> payload_loop rs i acc = acc @ concat (map ((#) CHR '','') (drop i rs))"
proof (induction rs i acc rule: payload_loop.induct)
  case (1 rs i acc)
  show ?case
  proof (cases "i < length rs")
    case True
    then have d: "drop i rs = rs ! i # drop (Suc i) rs"
      by (simp add: Cons_nth_drop_Suc)
    from True 1 show ?thesis
      by (subst payload_loop.simps) (simp add: d)
  next
    case False
    then show ?thesis by (subst payload_loop.simps) simp
  qed
qed

lemma payload_loop_0: "payload_loop rs 0 acc = acc @ comma_separated rs"
proof (cases rs)
  case Nil
  then show ?thesis by (subst payload_loop.simps) simp
next
  case (Cons r rs')
  then show ?thesis
    by (subst payload_loop.simps) (simp add: payload_loop_pos comma_separated_Cons)
qed

lemma build_payload_wire: "build_payload app rs = wire_payload app rs"
  by (simp add: build_payload_def wire_payload_def payload_loop_0)


lemma interfere_quiet:
  "\<not> shutdown_flag_m t \<Longrightarrow> \<not> shutdown_stored e k \<Longrightarrow> interfere e k t = t"
  by (simp add: interfere_def)

lemma interfere_fields [simp]:
  "max_retries_m (interfere e k t) = max_retries_m t"
  "base_backoff_ms_m (interfere e k t) = base_backoff_ms_m t"
  "curl_handle_m (interfere e k t) = curl_handle_m t"
  "circuit_open_m (interfere e k t) = circuit_open_m t"
  "circuit_open_until_ms_m (interfere e k t) = circuit_open_until_ms_m t"
  "circuit_reset_interval_m (interfere e k t) = circuit_reset_interval_m t"
  "application_id_m (interfere e k t) = application_id_m t"
  "endpoint_m (interfere e k t) = endpoint_m t"
  "http_timeout_m (interfere e k t) = http_timeout_m t"
  by (simp_all add: interfere_def)

lemma retry_loop_exhausted:
  "\<not> a \<le> max_retries_m t \<Longrightarrow> retry_loop e t a = (False, open_circuit e t, [])"
  by (subst retry_loop.simps) simp

lemma retry_loop_shutdown:
  "a \<le> max_retries_m t \<Longrightarrow> shutdown_flag_m (interfere e (nat a + 1) t) \<Longrightarrow>
   retry_loop e t a = (False, interfere e (nat a + 1) t, [])"
  by (subst retry_loop.simps) (simp add: Let_def)

lemma retry_loop_success:
  "a \<le> max_retries_m t \<Longrightarrow> \<not> shutdown_flag_m (interfere e (nat a + 1) t) \<Longrightarrow>
   attempt_succeeded (perform e a) \<Longrightarrow>
   retry_loop e t a = (True, close_circuit (interfere e (nat a + 1) t), [Perform a])"
  by (subst retry_loop.simps) (simp add: Let_def)

lemma retry_loop_failure:
  "a \<le> max_retries_m t \<Longrightarrow> \<not> shutdown_flag_m (interfere e (nat a + 1) t) \<Longrightarrow>
   \<not> attempt_succeeded (perform e a) \<Longrightarrow>
   retry_loop e t a =
     (fst (retry_loop e (interfere e (nat a + 1) t) (a + 1)),
      fst (snd (retry_loop e (interfere e (nat a + 1) t) (a + 1))),
      Perform a # (if a < max_retries_m t then [Sleep (base_backoff_ms_m t * a)] else []) @
      snd (snd (retry_loop e (interfere e (nat a + 1) t) (a + 1))))"
  by (subst retry_loop.simps) (simp add: Let_def split: prod.splits)


lemma retry_loop_cases:
  obtains
    (exhausted) "\<not> a \<le> max_retries_m t"
  | (shutdown) "a \<le> max_retries_m t" "shutdown_flag_m (interfere e (nat a + 1) t)"
  | (success) "a \<le> max_retries_m t" "\<not> shutdown_flag_m (interfere e (nat a + 1) t)"
      "attempt_succeeded (perform e a)"
  | (failure) "a \<le> max_retries_m t" "\<not> shutdown_flag_m (interfere e (nat a + 1) t)"
      "\<not> attempt_succeeded (perform e a)"
  by blast



lemma attempts_upto_last: "attempts_upto base s s = [Perform s]"
  by (simp add: attempts_upto_def)

lemma attempts_upto_step:
  "a < s \<Longrightarrow> attempts_upto base a s = Perform a # Sleep (base * a) # attempts_upto base (a + 1) s"
  by (simp add: attempts_upto_def upto_rec1 [of a "s - 1"])

lemma retry_loop_all_fail:
  assumes "\<not> shutdown_flag_m t" and "\<forall>k. \<not> shutdown_stored e k"
    and "\<forall>k. a \<le> k \<and> k \<le> max_retries_m t \<longrightarrow> \<not> attempt_succeeded (perform e k)"
    and "a \<le> max_retries_m t"
  shows "retry_loop e t a =
    (False, open_circuit e t, attempts_upto (base_backoff_ms_m t) a (max_retries_m t))"
  using assms
proof (induction e t a rule: retry_loop.induct)
  case (1 e t attempt)
  have q: "interfere e (nat attempt + 1) t = t"
    using "1.prems" by (simp add: interfere_quiet)
  have f: "\<not> attempt_succeeded (perform e attempt)"
    using "1.prems" by simp
  have step: "retry_loop e t attempt =
     (fst (retry_loop e t (attempt + 1)), fst (snd (retry_loop e t (attempt + 1))),
      Perform attempt #
      (if attempt < max_retries_m t then [Sleep (base_backoff_ms_m t * attempt)] else []) @
      snd (snd (retry_loop e t (attempt + 1))))"
    using retry_loop_failure [of attempt t e] "1.prems" f q by simp
  show ?case
  proof (cases "attempt < max_retries_m t")
    case True
    have "retry_loop e t (attempt + 1) =
      (False, open_circuit e t, attempts_upto (base_backoff_ms_m t) (attempt + 1) (max_retries_m t))"
      using "1.IH" [OF _ refl _ _] "1.prems" f q True by simp
    with True step show ?thesis
      by (simp add: attempts_upto_step)
  next
    case False
    with "1.prems" have eq: "attempt = max_retries_m t"
      by simp
    then have "retry_loop e t (attempt + 1) = (False, open_circuit e t, [])"
      by (simp add: retry_loop_exhausted)
    with step eq show ?thesis
      by (simp add: attempts_upto_last)
  qed
qed

lemma retry_loop_success_at:
  assumes "\<not> shutdown_flag_m t" and "\<forall>k. \<not> shutdown_stored e k"
    and "\<forall>k. a \<le> k \<and> k < s \<longrightarrow> \<not> attempt_succeeded (perform e k)"
    and "attempt_succeeded (perform e s)"
    and "a \<le> s" and "s \<le> max_retries_m t"
  shows "retry_loop e t a = (True, close_circuit t, attempts_upto (base_backoff_ms_m t) a s)"
  using assms
proof (induction e t a rule: retry_loop.induct)
  case (1 e t attempt)
  have q: "interfere e (nat attempt + 1) t = t"
    using "1.prems" by (simp add: interfere_quiet)
  show ?case
  proof (cases "attempt < s")
    case True
    then have f: "\<not> attempt_succeeded (perform e attempt)"
      using "1.prems" by simp
    have step: "retry_loop e t attempt =
       (fst (retry_loop e t (attempt + 1)), fst (snd (retry_loop e t (attempt + 1))),
        Perform attempt #
        (if attempt < max_retries_m t then [Sleep (base_backoff_ms_m t * attempt)] else []) @
        snd (snd (retry_loop e t (attempt + 1))))"
      using retry_loop_failure [of attempt t e] "1.prems" f q by simp
    have "retry_loop e t (attempt + 1) =
      (True, close_circuit t, attempts_upto (base_backoff_ms_m t) (attempt + 1) s)"
      using "1.IH" [OF _ refl _ _] "1.prems" f q True by simp
    with True step "1.prems" show ?thesis
      by (simp add: attempts_upto_step)
  next
    case False
    with "1.prems" have eq: "attempt = s"
      by simp
    with "1.prems" q show ?thesis
      using retry_loop_success [of attempt t e] by (simp add: attempts_upto_last)
  qed
qed

lemma shutdown_flag_interfere [simp]:
  "shutdown_flag_m (interfere e k t) \<longleftrightarrow> shutdown_flag_m t \<or> shutdown_stored e k"
  by (simp add: interfere_def)

lemma is_circuit_open_interfere [simp]:
  "is_circuit_open e (interfere e' k t) = is_circuit_open e t"
  by (simp add: is_circuit_open_def)

lemma send_batch_fast_paths:
  "shutdown_flag_m (interfere e 0 t) \<or> recs = [] \<or> is_circuit_open e t \<Longrightarrow>
   send_batch e t recs = (False, interfere e 0 t, [])"
  by (auto simp add: send_batch_def Let_def)

lemma send_batch_recheck:
  "\<not> shutdown_flag_m (interfere e 0 t) \<Longrightarrow> recs \<noteq> [] \<Longrightarrow> \<not> is_circuit_open e t \<Longrightarrow>
   shutdown_flag_m (interfere e 1 (interfere e 0 t)) \<or> \<not> curl_handle_m t \<Longrightarrow>
   send_batch e t recs = (False, interfere e 1 (interfere e 0 t), [Lock, Unlock])"
  by (auto simp add: send_batch_def Let_def)

lemma send_batch_attempted:
  "\<not> shutdown_flag_m (interfere e 1 (interfere e 0 t)) \<Longrightarrow> recs \<noteq> [] \<Longrightarrow>
   \<not> is_circuit_open e t \<Longrightarrow> curl_handle_m t \<Longrightarrow>
   send_batch e t recs =
     (fst (retry_loop e (interfere e 1 (interfere e 0 t)) 1),
      fst (snd (retry_loop e (interfere e 1 (interfere e 0 t)) 1)),
      [Lock, Setup (endpoint_m t) (wire_payload (application_id_m t) recs) (http_timeout_m t)] @
      snd (snd (retry_loop e (interfere e 1 (interfere e 0 t)) 1)) @ [Unlock])"
  by (simp add: send_batch_def Let_def build_payload_wire split: prod.splits)

lemma send_batch_cases:
  obtains
    (fast) "shutdown_flag_m (interfere e 0 t) \<or> recs = [] \<or> is_circuit_open e t"
  | (recheck) "\<not> shutdown_flag_m (interfere e 0 t)" "recs \<noteq> []" "\<not> is_circuit_open e t"
      "shutdown_flag_m (interfere e 1 (interfere e 0 t)) \<or> \<not> curl_handle_m t"
  | (attempted) "\<not> shutdown_flag_m (interfere e 1 (interfere e 0 t))" "recs \<noteq> []"
      "\<not> is_circuit_open e t" "curl_handle_m t"
  by blast


lemma transport0_fields [simp]:
  "endpoint_m transport0 = ''http://localhost:8001/logs/ingest''"
  "application_id_m transport0 = ''app''"
  "max_retries_m transport0 = 3"
  "base_backoff_ms_m transport0 = 100"
  "http_timeout_m transport0 = 1000"
  "curl_handle_m transport0"
  "\<not> shutdown_flag_m transport0"
  "\<not> circuit_open_m transport0"
  "circuit_open_until_ms_m transport0 = 0"
  "circuit_reset_interval_m transport0 = 30000"
  by (simp_all add: transport0_def HttpTransport_init_def default_config_def)

lemma net_fields [simp]:
  "shutdown_stored (net_quiet p tc topen) k = False"
  "now_check (net_quiet p tc topen) = tc"
  "now_open (net_quiet p tc topen) = topen"
  "perform (net_quiet p tc topen) = p"
  "shutdown_stored (net_shutdown_from k0 p) k \<longleftrightarrow> k0 \<le> k"
  "perform (net_shutdown_from k0 p) = p"
  "now_check (net_shutdown_from k0 p) = 0"
  by (simp_all add: net_quiet_def net_shutdown_from_def)




text \<open>
  C8. With the shutdown flag set at the first load, or with an empty batch,
  \<open>send_batch\<close> returns false with no event at all: the handle lock is not taken.
  When the call gets past these checks and the circuit check, and the flag is found
  set at the load after the lock is taken or the handle is null, it returns false and
  its only events are taking and releasing the lock: nothing is configured and no
  attempt is made.
\<close>

theorem send_batch_bails_out:
  "(shutdown_flag_m (interfere e 0 t) \<or> rs = [] \<longrightarrow>
      send_batch e t rs = (False, interfere e 0 t, [])) \<and>
   (\<not> shutdown_flag_m (interfere e 0 t) \<and> rs \<noteq> [] \<and> \<not> is_circuit_open e t \<and>
    (shutdown_flag_m (interfere e 1 (interfere e 0 t)) \<or> \<not> curl_handle_m t) \<longrightarrow>
      send_batch e t rs = (False, interfere e 1 (interfere e 0 t), [Lock, Unlock]))"
proof (intro conjI impI)
  assume "shutdown_flag_m (interfere e 0 t) \<or> rs = []"
  then have "shutdown_flag_m (interfere e 0 t) \<or> rs = [] \<or> is_circuit_open e t"
    by blast
  then show "send_batch e t rs = (False, interfere e 0 t, [])"
    by (rule send_batch_fast_paths)
next
  assume b: "\<not> shutdown_flag_m (interfere e 0 t) \<and> rs \<noteq> [] \<and> \<not> is_circuit_open e t \<and>
    (shutdown_flag_m (interfere e 1 (interfere e 0 t)) \<or> \<not> curl_handle_m t)"
  then have b1: "\<not> shutdown_flag_m (interfere e 0 t)" and b2: "rs \<noteq> []"
    and b3: "\<not> is_circuit_open e t"
    and b4: "shutdown_flag_m (interfere e 1 (interfere e 0 t)) \<or> \<not> curl_handle_m t"
    by blast+
  show "send_batch e t rs = (False, interfere e 1 (interfere e 0 t), [Lock, Unlock])"
    by (rule send_batch_recheck [OF b1 b2 b3 b4])
qed

theorem send_batch_bails_out_witness:
  "send_batch (net_quiet always_failing 0 0) (transport0\<lparr>shutdown_flag_m := True\<rparr>) [''r''] =
     (False, transport0\<lparr>shutdown_flag_m := True\<rparr>, []) \<and>
   send_batch (net_shutdown_from 0 always_failing) transport0 [''r''] =
     (False, transport0\<lparr>shutdown_flag_m := True\<rparr>, []) \<and>
   send_batch (net_quiet always_failing 0 0) transport0 [] = (False, transport0, []) \<and>
   send_batch (net_shutdown_from 1 always_failing) transport0 [''r''] =
     (False, transport0\<lparr>shutdown_flag_m := True\<rparr>, [Lock, Unlock]) \<and>
   send_batch (net_quiet always_failing 0 0) (transport0\<lparr>curl_handle_m := False\<rparr>) [''r''] =
     (False, transport0\<lparr>curl_handle_m := False\<rparr>, [Lock, Unlock])"
  using send_batch_bails_out [of "net_quiet always_failing 0 0" "transport0\<lparr>shutdown_flag_m := True\<rparr>" "[''r'']"]
    send_batch_bails_out [of "net_shutdown_from 0 always_failing" transport0 "[''r'']"]
    send_batch_bails_out [of "net_quiet always_failing 0 0" transport0 "[]"]
    send_batch_bails_out [of "net_shutdown_from 1 always_failing" transport0 "[''r'']"]
    send_batch_bails_out [of "net_quiet always_failing 0 0" "transport0\<lparr>curl_handle_m := False\<rparr>" "[''r'']"]
  by (simp add: is_circuit_open_def interfere_def)

lemma always_failing_fails [simp]: "\<not> attempt_succeeded (always_failing a)"
  by (simp add: always_failing_def attempt_succeeded_def)

lemma ok_from_succeeds [simp]: "attempt_succeeded (ok_from s a) \<longleftrightarrow> s \<le> a"
  by (simp add: ok_from_def attempt_succeeded_def)


lemma send_batch_quiet:
  assumes "\<not> shutdown_flag_m t" and "\<forall>k. \<not> shutdown_stored e k" and "rs \<noteq> []"
    and "curl_handle_m t" and "\<not> is_circuit_open e t"
  shows "send_batch e t rs =
     (fst (retry_loop e t 1), fst (snd (retry_loop e t 1)),
      [Lock, Setup (endpoint_m t) (wire_payload (application_id_m t) rs) (http_timeout_m t)] @
      snd (snd (retry_loop e t 1)) @ [Unlock])"
proof -
  have i: "interfere e k t = t" for k
    using assms by (simp add: interfere_quiet)
  show ?thesis
    using send_batch_attempted [of e t rs] assms by (simp add: i)
qed

lemma send_batch_all_fail:
  assumes "\<not> shutdown_flag_m t" and "\<forall>k. \<not> shutdown_stored e k" and "rs \<noteq> []"
    and "curl_handle_m t" and "\<not> is_circuit_open e t" and "1 \<le> max_retries_m t"
    and "\<forall>k. 1 \<le> k \<and> k \<le> max_retries_m t \<longrightarrow> \<not> attempt_succeeded (perform e k)"
  shows "send_batch e t rs =
    (False, open_circuit e t,
     [Lock, Setup (endpoint_m t) (wire_payload (application_id_m t) rs) (http_timeout_m t)] @
     attempts_upto (base_backoff_ms_m t) 1 (max_retries_m t) @ [Unlock])"
proof -
  have "retry_loop e t 1 =
    (False, open_circuit e t, attempts_upto (base_backoff_ms_m t) 1 (max_retries_m t))"
    using assms by (intro retry_loop_all_fail) simp_all
  then show ?thesis
    using send_batch_quiet [of t e rs] assms by simp
qed

lemma send_batch_none_possible:
  assumes "\<not> shutdown_flag_m t" and "\<forall>k. \<not> shutdown_stored e k" and "rs \<noteq> []"
    and "curl_handle_m t" and "\<not> is_circuit_open e t" and "max_retries_m t < 1"
  shows "send_batch e t rs =
    (False, open_circuit e t,
     [Lock, Setup (endpoint_m t) (wire_payload (application_id_m t) rs) (http_timeout_m t),
      Unlock])"
proof -
  have "retry_loop e t 1 = (False, open_circuit e t, [])"
    using assms by (intro retry_loop_exhausted) simp
  then show ?thesis
    using send_batch_quiet [of t e rs] assms by simp
qed

lemma send_batch_success_at:
  assumes "\<not> shutdown_flag_m t" and "\<forall>k. \<not> shutdown_stored e k" and "rs \<noteq> []"
    and "curl_handle_m t" and "\<not> is_circuit_open e t"
    and "1 \<le> s" and "s \<le> max_retries_m t"
    and "\<forall>k. 1 \<le> k \<and> k < s \<longrightarrow> \<not> attempt_succeeded (perform e k)"
    and "attempt_succeeded (perform e s)"
  shows "send_batch e t rs =
    (True, close_circuit t,
     [Lock, Setup (endpoint_m t) (wire_payload (application_id_m t) rs) (http_timeout_m t)] @
     attempts_upto (base_backoff_ms_m t) 1 s @ [Unlock])"
proof -
  have "retry_loop e t 1 = (True, close_circuit t, attempts_upto (base_backoff_ms_m t) 1 s)"
    using assms by (intro retry_loop_success_at) simp_all
  then show ?thesis
    using send_batch_quiet [of t e rs] assms by simp
qed

lemma send_batch_probe_first_event:
  assumes "\<not> shutdown_flag_m t" and "\<forall>k. \<not> shutdown_stored e k" and "rs \<noteq> []"
    and "curl_handle_m t" and "\<not> is_circuit_open e t" and "1 \<le> max_retries_m t"
  shows "\<exists>ok t' evs. send_batch e t rs =
    (ok, t', Lock # Setup (endpoint_m t) (wire_payload (application_id_m t) rs) (http_timeout_m t) #
       Perform 1 # evs)"
proof -
  have i: "interfere e k t = t" for k
    using assms by (simp add: interfere_quiet)
  have "\<exists>evs. snd (snd (retry_loop e t 1)) = Perform 1 # evs"
  proof (cases "attempt_succeeded (perform e 1)")
    case True
    with assms show ?thesis
      using retry_loop_success [of 1 t e] by (simp add: i)
  next
    case False
    with assms show ?thesis
      using retry_loop_failure [of 1 t e] by (simp add: i)
  qed
  then show ?thesis
    using send_batch_quiet [of t e rs] assms by auto
qed

text \<open>
  The circuit breaker, for calls that are not shut down, carry a non-empty batch
  and have a handle. A new transport is closed, and a closed circuit lets the call
  through. A call let through whose attempts all fail returns false and leaves the
  circuit open with deadline \<open>now_open + circuit_reset_interval\<close>, the clock being
  read when the circuit opens. While the circuit is open and the clock is before the
  deadline, a call returns false with no event and leaves the transport as it was.
  Once the clock has reached the deadline the call is let through: with at least one
  attempt allowed it performs attempt 1 (the probe); an attempt answered with a 2xx
  code makes the call return true with the circuit closed; when all attempts fail the
  circuit is open again with a deadline formed from the new clock reading, which is
  later than the old deadline when the clock does not run backwards and the interval
  is positive.
\<close>

lemma circuit_breaker_state_machine:
  assumes "\<not> shutdown_flag_m t" and "\<forall>k. \<not> shutdown_stored e k" and "rs \<noteq> []"
    and "curl_handle_m t"
  shows
    "\<not> circuit_open_m (HttpTransport_init config curl_ok) \<and>
     (\<not> circuit_open_m t \<longrightarrow> \<not> is_circuit_open e t) \<and>
     (\<not> is_circuit_open e t \<and>
      (\<forall>k. 1 \<le> k \<and> k \<le> max_retries_m t \<longrightarrow> \<not> attempt_succeeded (perform e k)) \<longrightarrow>
        (\<exists>evs. send_batch e t rs = (False, open_circuit e t, evs)) \<and>
        circuit_open_m (open_circuit e t) \<and>
        circuit_open_until_ms_m (open_circuit e t) = now_open e + circuit_reset_interval_m t) \<and>
     (circuit_open_m t \<and> now_check e < circuit_open_until_ms_m t \<longrightarrow>
        is_circuit_open e t \<and> send_batch e t rs = (False, t, [])) \<and>
     (circuit_open_m t \<and> circuit_open_until_ms_m t \<le> now_check e \<longrightarrow> \<not> is_circuit_open e t) \<and>
     (\<not> is_circuit_open e t \<and> 1 \<le> max_retries_m t \<longrightarrow>
        (\<exists>ok t' evs. send_batch e t rs =
           (ok, t',
            Lock # Setup (endpoint_m t) (wire_payload (application_id_m t) rs) (http_timeout_m t) #
            Perform 1 # evs))) \<and>
     (\<not> is_circuit_open e t \<and> 1 \<le> s \<and> s \<le> max_retries_m t \<and>
      (\<forall>k. 1 \<le> k \<and> k < s \<longrightarrow> \<not> attempt_succeeded (perform e k)) \<and>
      attempt_succeeded (perform e s) \<longrightarrow>
        (\<exists>evs. send_batch e t rs = (True, close_circuit t, evs)) \<and>
        \<not> circuit_open_m (close_circuit t)) \<and>
     (circuit_open_m t \<and> circuit_open_until_ms_m t \<le> now_check e \<and> now_check e \<le> now_open e \<and>
      0 < circuit_reset_interval_m t \<longrightarrow>
        circuit_open_until_ms_m t < circuit_open_until_ms_m (open_circuit e t))"
proof (intro conjI impI; (elim conjE)?)
  show "\<not> circuit_open_m (HttpTransport_init config curl_ok)"
    by (simp add: HttpTransport_init_def)
  show "\<not> is_circuit_open e t" if "\<not> circuit_open_m t"
    using that by (simp add: is_circuit_open_def)
  show "\<exists>evs. send_batch e t rs = (False, open_circuit e t, evs)"
    if "\<not> is_circuit_open e t"
      and "\<forall>k. 1 \<le> k \<and> k \<le> max_retries_m t \<longrightarrow> \<not> attempt_succeeded (perform e k)"
  proof (cases "1 \<le> max_retries_m t")
    case True
    with assms that show ?thesis
      using send_batch_all_fail [of t e rs] by simp
  next
    case False
    with assms that show ?thesis
      using send_batch_none_possible [of t e rs] by simp
  qed
  show "circuit_open_m (open_circuit e t)"
    by (simp add: open_circuit_def)
  show "circuit_open_until_ms_m (open_circuit e t) = now_open e + circuit_reset_interval_m t"
    by (simp add: open_circuit_def)
  show "is_circuit_open e t" if "circuit_open_m t" "now_check e < circuit_open_until_ms_m t"
    using that by (simp add: is_circuit_open_def)
  show "send_batch e t rs = (False, t, [])"
    if "circuit_open_m t" "now_check e < circuit_open_until_ms_m t"
  proof -
    have "is_circuit_open e t"
      using that by (simp add: is_circuit_open_def)
    then have "send_batch e t rs = (False, interfere e 0 t, [])"
      by (intro send_batch_fast_paths) simp
    with assms show ?thesis
      by (simp add: interfere_quiet)
  qed
  show "\<not> is_circuit_open e t" if "circuit_open_until_ms_m t \<le> now_check e"
    using that by (simp add: is_circuit_open_def)
  show "\<exists>ok t' evs. send_batch e t rs =
           (ok, t',
            Lock # Setup (endpoint_m t) (wire_payload (application_id_m t) rs) (http_timeout_m t) #
            Perform 1 # evs)"
    if "\<not> is_circuit_open e t" "1 \<le> max_retries_m t"
    using assms that by (intro send_batch_probe_first_event) simp_all
  show "\<exists>evs. send_batch e t rs = (True, close_circuit t, evs)"
    if "\<not> is_circuit_open e t" "1 \<le> s" "s \<le> max_retries_m t"
      "\<forall>k. 1 \<le> k \<and> k < s \<longrightarrow> \<not> attempt_succeeded (perform e k)"
      "attempt_succeeded (perform e s)"
    using assms that send_batch_success_at [of t e rs s] by simp
  show "\<not> circuit_open_m (close_circuit t)"
    by (simp add: close_circuit_def)
  show "circuit_open_until_ms_m t < circuit_open_until_ms_m (open_circuit e t)"
    if "circuit_open_until_ms_m t \<le> now_check e" "now_check e \<le> now_open e"
      "0 < circuit_reset_interval_m t"
    using that by (simp add: open_circuit_def)
qed

lemma transport_open_fields [simp]:
  "endpoint_m transport_open = ''http://localhost:8001/logs/ingest''"
  "application_id_m transport_open = ''app''"
  "max_retries_m transport_open = 3"
  "base_backoff_ms_m transport_open = 100"
  "http_timeout_m transport_open = 1000"
  "curl_handle_m transport_open"
  "\<not> shutdown_flag_m transport_open"
  "circuit_open_m transport_open"
  "circuit_open_until_ms_m transport_open = 35000"
  "circuit_reset_interval_m transport_open = 30000"
  by (simp_all add: transport_open_def open_circuit_def)

lemma circuit_breaker_state_machine_example:
  "\<not> circuit_open_m (HttpTransport_init default_config True) \<and>
   (\<exists>evs. send_batch (net_quiet always_failing 0 5000) transport0 [''r''] =
      (False, transport_open, evs)) \<and>
   circuit_open_m transport_open \<and>
   circuit_open_until_ms_m transport_open = 5000 + 30000 \<and>
   send_batch (net_quiet always_failing 6000 6000) transport_open [''r''] =
      (False, transport_open, []) \<and>
   (\<exists>ok t' evs. send_batch (net_quiet (ok_from 1) 40000 40000) transport_open [''r''] =
      (ok, t',
       Lock # Setup ''http://localhost:8001/logs/ingest'' (wire_payload ''app'' [''r'']) 1000 #
       Perform 1 # evs)) \<and>
   (\<exists>evs. send_batch (net_quiet (ok_from 2) 40000 40000) transport_open [''r''] =
      (True, close_circuit transport_open, evs)) \<and>
   \<not> circuit_open_m (close_circuit transport_open) \<and>
   (\<exists>evs. send_batch (net_quiet always_failing 40000 41000) transport_open [''r''] =
      (False, open_circuit (net_quiet always_failing 40000 41000) transport_open, evs)) \<and>
   circuit_open_until_ms_m (open_circuit (net_quiet always_failing 40000 41000) transport_open)
     = 41000 + 30000 \<and>
   circuit_open_until_ms_m transport_open
     < circuit_open_until_ms_m (open_circuit (net_quiet always_failing 40000 41000) transport_open)"
proof -
  have q: "\<forall>k. \<not> shutdown_stored (net_quiet p tc topen) k" for p tc topen
    by simp
  have r: "[''r''] \<noteq> []"
    by simp
  have a: "\<not> shutdown_flag_m transport0" and a': "curl_handle_m transport0"
    by simp_all
  have b: "\<not> shutdown_flag_m transport_open" and b': "curl_handle_m transport_open"
    by simp_all
  show ?thesis
    using circuit_breaker_state_machine [OF a q [of always_failing 0 5000] r a',
        where config = default_config and curl_ok = True and s = 1]
      circuit_breaker_state_machine [OF b q [of always_failing 6000 6000] r b',
        where config = default_config and curl_ok = True and s = 1]
      circuit_breaker_state_machine [OF b q [of "ok_from 1" 40000 40000] r b',
        where config = default_config and curl_ok = True and s = 1]
      circuit_breaker_state_machine [OF b q [of "ok_from 2" 40000 40000] r b',
        where config = default_config and curl_ok = True and s = 2]
      circuit_breaker_state_machine [OF b q [of always_failing 40000 41000] r b',
        where config = default_config and curl_ok = True and s = 1]
    by (simp add: is_circuit_open_def transport_open_def [symmetric])
qed

lemma transport_zero_fields [simp]:
  "endpoint_m transport_zero = ''http://localhost:8001/logs/ingest''"
  "application_id_m transport_zero = ''app''"
  "max_retries_m transport_zero = 0"
  "http_timeout_m transport_zero = 1000"
  "curl_handle_m transport_zero"
  "\<not> shutdown_flag_m transport_zero"
  "\<not> circuit_open_m transport_zero"
  "circuit_reset_interval_m transport_zero = 30000"
  by (simp_all add: transport_zero_def HttpTransport_init_def default_config_def)

lemma transport_zero_open_fields [simp]:
  "endpoint_m transport_zero_open = ''http://localhost:8001/logs/ingest''"
  "application_id_m transport_zero_open = ''app''"
  "max_retries_m transport_zero_open = 0"
  "http_timeout_m transport_zero_open = 1000"
  "curl_handle_m transport_zero_open"
  "\<not> shutdown_flag_m transport_zero_open"
  "circuit_open_m transport_zero_open"
  "circuit_open_until_ms_m transport_zero_open = 35000"
  "circuit_reset_interval_m transport_zero_open = 30000"
  by (simp_all add: transport_zero_open_def open_circuit_def)

text \<open>
  C4. The claim has the call after the deadline attempted as a probe. With
  \<^verbatim>\<open>max_retries = 0\<close>, a value \<open>from_env\<close> accepts, the code does not do so. On an
  endpoint that would answer every attempt with code 200, the first call makes no
  attempt, returns false and opens the circuit with deadline 5000 + 30000; the call
  at clock reading 40000, past the deadline, is let through by the circuit check but
  again configures the request, performs no attempt, returns false and re-opens the
  circuit with deadline 41000 + 30000. The endpoint is never contacted and the
  circuit never closes. The same call on the same transport with one attempt allowed
  probes, returns true and closes the circuit.
\<close>

theorem circuit_breaker_no_probe_at_zero_retries:
  "max_retries (from_env (env_only ''DRTRACE_MAX_RETRIES'' ''0'') []) = 0 \<and>
   attempt_succeeded (ok_from 1 1) \<and>
   send_batch (net_quiet (ok_from 1) 0 5000) transport_zero [''r''] =
     (False, transport_zero_open,
      [Lock, Setup ''http://localhost:8001/logs/ingest'' (wire_payload ''app'' [''r'']) 1000,
       Unlock]) \<and>
   circuit_open_m transport_zero_open \<and>
   circuit_open_until_ms_m transport_zero_open = 5000 + 30000 \<and>
   \<not> is_circuit_open (net_quiet (ok_from 1) 40000 41000) transport_zero_open \<and>
   send_batch (net_quiet (ok_from 1) 40000 41000) transport_zero_open [''r''] =
     (False, open_circuit (net_quiet (ok_from 1) 40000 41000) transport_zero_open,
      [Lock, Setup ''http://localhost:8001/logs/ingest'' (wire_payload ''app'' [''r'']) 1000,
       Unlock]) \<and>
   filter is_perform
     (snd (snd (send_batch (net_quiet (ok_from 1) 40000 41000) transport_zero_open [''r''])))
     = [] \<and>
   circuit_open_m (open_circuit (net_quiet (ok_from 1) 40000 41000) transport_zero_open) \<and>
   circuit_open_until_ms_m (open_circuit (net_quiet (ok_from 1) 40000 41000) transport_zero_open)
     = 41000 + 30000 \<and>
   send_batch (net_quiet (ok_from 1) 40000 41000) (transport_zero_open\<lparr>max_retries_m := 1\<rparr>)
     [''r''] =
     (True, close_circuit (transport_zero_open\<lparr>max_retries_m := 1\<rparr>),
      [Lock, Setup ''http://localhost:8001/logs/ingest'' (wire_payload ''app'' [''r'']) 1000,
       Perform 1, Unlock])"
proof -
  have env: "max_retries (from_env (env_only ''DRTRACE_MAX_RETRIES'' ''0'') []) = 0"
    by (simp add: from_env_def env_max_retries_def env_only_def stoi_examples)
  have first: "send_batch (net_quiet (ok_from 1) 0 5000) transport_zero [''r''] =
     (False, transport_zero_open,
      [Lock, Setup ''http://localhost:8001/logs/ingest'' (wire_payload ''app'' [''r'']) 1000,
       Unlock])"
    using send_batch_none_possible [of transport_zero "net_quiet (ok_from 1) 0 5000" "[''r'']"]
    by (simp add: is_circuit_open_def transport_zero_open_def [symmetric])
  have np: "\<not> is_circuit_open (net_quiet (ok_from 1) 40000 41000) transport_zero_open"
    by (simp add: is_circuit_open_def)
  have second: "send_batch (net_quiet (ok_from 1) 40000 41000) transport_zero_open [''r''] =
     (False, open_circuit (net_quiet (ok_from 1) 40000 41000) transport_zero_open,
      [Lock, Setup ''http://localhost:8001/logs/ingest'' (wire_payload ''app'' [''r'']) 1000,
       Unlock])"
    using send_batch_none_possible [of transport_zero_open "net_quiet (ok_from 1) 40000 41000"
        "[''r'']"] np
    by simp
  have np1: "\<not> is_circuit_open (net_quiet (ok_from 1) 40000 41000)
      (transport_zero_open\<lparr>max_retries_m := 1\<rparr>)"
    by (simp add: is_circuit_open_def)
  have probe: "send_batch (net_quiet (ok_from 1) 40000 41000)
      (transport_zero_open\<lparr>max_retries_m := 1\<rparr>) [''r''] =
     (True, close_circuit (transport_zero_open\<lparr>max_retries_m := 1\<rparr>),
      [Lock, Setup ''http://localhost:8001/logs/ingest'' (wire_payload ''app'' [''r'']) 1000,
       Perform 1, Unlock])"
    using send_batch_success_at [of "transport_zero_open\<lparr>max_retries_m := 1\<rparr>"
        "net_quiet (ok_from 1) 40000 41000" "[''r'']" 1] np1
    by (simp add: attempts_upto_last)
  show ?thesis
    using env first np second probe by (simp add: open_circuit_def)
qed




section \<open>Properties of the log engine\<close>

lemma retry_loop_no_send_batch:
  "ev \<in> set (snd (snd (retry_loop e t a))) \<Longrightarrow> \<not> is_send_batch ev"
proof (induction e t a arbitrary: ev rule: retry_loop.induct)
  case (1 e t attempt)
  show ?case
  proof (cases rule: retry_loop_cases [where a = attempt and t = t and e = e])
    case exhausted
    with "1.prems" show ?thesis by (simp add: retry_loop_exhausted)
  next
    case shutdown
    with "1.prems" show ?thesis by (simp add: retry_loop_shutdown)
  next
    case success
    with "1.prems" show ?thesis by (auto simp add: retry_loop_success)
  next
    case failure
    with "1.prems" have "ev = Perform attempt \<or> (\<exists>d. ev = Sleep d) \<or>
      ev \<in> set (snd (snd (retry_loop e (interfere e (nat attempt + 1) t) (attempt + 1))))"
      by (auto simp add: retry_loop_failure split: if_splits)
    with "1.IH" [OF _ refl _ _, of ev] failure show ?thesis
      by auto
  qed
qed

lemma send_batch_no_send_batch: "filter is_send_batch (snd (snd (send_batch e t rs))) = []"
proof (cases rule: send_batch_cases [where e = e and t = t and recs = rs])
  case fast
  then show ?thesis by (simp add: send_batch_fast_paths)
next
  case recheck
  then show ?thesis by (simp add: send_batch_recheck)
next
  case attempted
  then show ?thesis
    by (simp add: send_batch_attempted filter_empty_conv retry_loop_no_send_batch)
qed

lemma flush_internal_empty: "batch_m core = [] \<Longrightarrow> flush_internal e core = (core, [])"
  by (simp add: flush_internal_def)

lemma flush_internal_no_transport:
  "batch_m core \<noteq> [] \<Longrightarrow> transport_m core = None \<Longrightarrow>
   flush_internal e core = (core\<lparr>batch_m := []\<rparr>, [])"
  by (simp add: flush_internal_def)

lemma flush_internal_sends:
  "batch_m core \<noteq> [] \<Longrightarrow> transport_m core = Some t \<Longrightarrow>
   flush_internal e core =
     (core\<lparr>batch_m := [], transport_m := Some (fst (snd (send_batch e t (batch_m core))))\<rparr>,
      SendBatch (batch_m core) # snd (snd (send_batch e t (batch_m core))))"
  by (simp add: flush_internal_def Let_def split: prod.splits)

lemma flush_internal_cases:
  obtains (empty) "batch_m core = []"
  | (no_transport) "batch_m core \<noteq> []" "transport_m core = None"
  | (sends) t where "batch_m core \<noteq> []" "transport_m core = Some t"
  by (cases "transport_m core") auto

lemma flush_internal_batch [simp]: "batch_m (fst (flush_internal e core)) = []"
  by (cases rule: flush_internal_cases [of core])
    (simp_all add: flush_internal_empty flush_internal_no_transport flush_internal_sends)

lemma flush_internal_config [simp]: "config_m (fst (flush_internal e core)) = config_m core"
  by (cases rule: flush_internal_cases [of core])
    (simp_all add: flush_internal_empty flush_internal_no_transport flush_internal_sends)

text \<open>
  C3. \<open>flush\<close> leaves the buffer empty. On an empty buffer it returns the engine
  unchanged with no event. On a non-empty buffer it hands the whole buffer, in its
  order, to \<open>send_batch\<close> of the transport: the events of the call are that one
  hand-off followed by the events of \<open>send_batch\<close> on exactly that batch, and no
  other hand-off occurs. A second \<open>flush\<close> right after finds nothing to hand off.
\<close>

theorem flush_takes_whole_buffer:
  "batch_m (fst (flush e core)) = [] \<and>
   (batch_m core = [] \<longrightarrow> flush e core = (core, [])) \<and>
   (batch_m core \<noteq> [] \<and> transport_m core = Some t \<longrightarrow>
      (\<exists>ok t' evs.
         send_batch e t (batch_m core) = (ok, t', evs) \<and>
         flush e core =
           (core\<lparr>batch_m := [], transport_m := Some t'\<rparr>, SendBatch (batch_m core) # evs) \<and>
         filter is_send_batch evs = [])) \<and>
   flush e' (fst (flush e core)) = (fst (flush e core), [])"
proof (intro conjI impI; (elim conjE)?)
  show "batch_m (fst (flush e core)) = []"
    by (simp add: flush_def)
  show "flush e core = (core, [])" if "batch_m core = []"
    using that by (simp add: flush_def flush_internal_empty)
  show "\<exists>ok t' evs.
         send_batch e t (batch_m core) = (ok, t', evs) \<and>
         flush e core =
           (core\<lparr>batch_m := [], transport_m := Some t'\<rparr>, SendBatch (batch_m core) # evs) \<and>
         filter is_send_batch evs = []"
    if "batch_m core \<noteq> []" "transport_m core = Some t"
    using that send_batch_no_send_batch [of e t "batch_m core"]
    by (cases "send_batch e t (batch_m core)") (simp add: flush_def flush_internal_sends)
  show "flush e' (fst (flush e core)) = (fst (flush e core), [])"
    by (simp add: flush_def flush_internal_empty)
qed

lemma core0_fields [simp]:
  "transport_m core0 = Some transport0"
  "batch_m core0 = []"
  "config_m core0 = default_config\<lparr>application_id := ''app''\<rparr>"
  by (simp_all add: core0_def DrtraceCore_init_def transport0_def)

theorem flush_takes_whole_buffer_witness:
  "flush (net_quiet always_failing 0 0) core0 = (core0, []) \<and>
   (\<exists>t' evs.
      flush (net_quiet (ok_from 1) 0 0) (core0\<lparr>batch_m := [''r1'', ''r2'']\<rparr>) =
        (core0\<lparr>batch_m := [], transport_m := Some t'\<rparr>, SendBatch [''r1'', ''r2''] # evs) \<and>
      filter is_send_batch evs = []) \<and>
   batch_m (fst (flush (net_quiet (ok_from 1) 0 0) (core0\<lparr>batch_m := [''r1'', ''r2'']\<rparr>))) = [] \<and>
   flush (net_quiet (ok_from 1) 0 0)
     (fst (flush (net_quiet (ok_from 1) 0 0) (core0\<lparr>batch_m := [''r1'', ''r2'']\<rparr>))) =
     (fst (flush (net_quiet (ok_from 1) 0 0) (core0\<lparr>batch_m := [''r1'', ''r2'']\<rparr>)), [])"
  using flush_takes_whole_buffer [of "net_quiet always_failing 0 0" core0 transport0
      "net_quiet always_failing 0 0"]
    flush_takes_whole_buffer [of "net_quiet (ok_from 1) 0 0" "core0\<lparr>batch_m := [''r1'', ''r2'']\<rparr>"
      transport0 "net_quiet (ok_from 1) 0 0"]
  by auto

lemma log_skipped:
  "\<not> enabled (config_m core) \<or> level_rank (level r) < level_rank (min_level (config_m core)) \<Longrightarrow>
   log p e core r = (core, [])"
  by (auto simp add: log_def)

lemma log_accepted:
  "enabled (config_m core) \<Longrightarrow>
   level_rank (min_level (config_m core)) \<le> level_rank (level r) \<Longrightarrow>
   log p e core r =
     (if snd (log_locked p core r) then flush_internal e (fst (log_locked p core r))
      else (fst (log_locked p core r), []))"
  by (simp add: log_def split: prod.splits)

lemma log_locked_fields [simp]:
  "config_m (fst (log_locked p core r)) = config_m core"
  "transport_m (fst (log_locked p core r)) = transport_m core"
  "batch_m (fst (log_locked p core r)) =
     (if 0 < max_buffer_size (config_m core) \<and> max_buffer_size (config_m core) \<le> length (batch_m core)
      then tl (batch_m core) else batch_m core) @ [serialize_record (config_m core) p r]"
  "snd (log_locked p core r) \<longleftrightarrow>
     batch_size (config_m core) \<le> length (batch_m (fst (log_locked p core r)))"
  by (simp_all add: log_locked_def Let_def)

lemma log_locked_eq:
  "fst (log_locked p core r) = core\<lparr>batch_m := batch_m (fst (log_locked p core r))\<rparr>"
  by (simp add: log_locked_def Let_def)

lemma log_locked_bound:
  "0 < max_buffer_size (config_m core) \<Longrightarrow> length (batch_m core) \<le> max_buffer_size (config_m core) \<Longrightarrow>
   length (batch_m (fst (log_locked p core r))) \<le> max_buffer_size (config_m core)"
  by (cases "batch_m core") auto

lemma log_config [simp]: "config_m (fst (log p e core r)) = config_m core"
  by (simp add: log_def split: prod.splits) (metis fst_conv log_locked_fields(1))

lemma log_bound:
  assumes "0 < max_buffer_size (config_m core)"
    and "length (batch_m core) \<le> max_buffer_size (config_m core)"
  shows "length (batch_m (fst (log p e core r))) \<le> max_buffer_size (config_m core)"
proof (cases "enabled (config_m core) \<and>
    level_rank (min_level (config_m core)) \<le> level_rank (level r)")
  case True
  then show ?thesis
    using log_locked_bound [OF assms, of p r] by (simp add: log_accepted del: log_locked_fields)
next
  case False
  then have "log p e core r = (core, [])"
    by (intro log_skipped) auto
  with assms show ?thesis
    by simp
qed

lemma log_all_Cons:
  "fst (log_all p core ((e, r) # rest)) = fst (log_all p (fst (log p e core r)) rest)"
  "snd (log_all p core ((e, r) # rest)) =
     snd (log p e core r) @ snd (log_all p (fst (log p e core r)) rest)"
  by (simp_all split: prod.splits)

lemma log_all_config [simp]: "config_m (fst (log_all p core ers)) = config_m core"
proof (induction ers arbitrary: core)
  case Nil
  then show ?case by simp
next
  case (Cons er ers)
  obtain e r where er: "er = (e, r)"
    by (cases er)
  have "config_m (fst (log_all p (fst (log p e core r)) ers)) = config_m core"
    using Cons.IH [of "fst (log p e core r)"] by simp
  then show ?case
    by (simp add: er log_all_Cons del: log_all.simps)
qed

lemma log_all_bound:
  "0 < max_buffer_size (config_m core) \<Longrightarrow> length (batch_m core) \<le> max_buffer_size (config_m core) \<Longrightarrow>
   length (batch_m (fst (log_all p core ers))) \<le> max_buffer_size (config_m core)"
proof (induction ers arbitrary: core)
  case Nil
  then show ?case by simp
next
  case (Cons er ers)
  obtain e r where er: "er = (e, r)"
    by (cases er)
  have "length (batch_m (fst (log p e core r))) \<le> max_buffer_size (config_m (fst (log p e core r)))"
    using log_bound [OF Cons.prems, of p e r] by simp
  with Cons.IH [of "fst (log p e core r)"] Cons.prems(1)
  have "length (batch_m (fst (log_all p (fst (log p e core r)) ers))) \<le> max_buffer_size (config_m core)"
    by simp
  then show ?case
    by (simp add: er log_all_Cons del: log_all.simps)
qed

lemma drop_oldest_step:
  fixes b :: "'a list"
  assumes "0 < m" and "length b \<le> m"
  shows "drop (length ((if m \<le> length b then tl b else b) @ [x]) + n - m)
           (((if m \<le> length b then tl b else b) @ [x]) @ xs) =
         drop (length b + Suc n - m) (b @ x # xs)"
proof (cases "m \<le> length b")
  case True
  with assms obtain h t where b: "b = h # t" and l: "Suc (length t) = m"
    by (cases b) auto
  from l have "length t + 1 + n - m = n" and "Suc (length t) + Suc n - m = Suc n"
    by simp_all
  with True b l show ?thesis
    by simp
next
  case False
  then show ?thesis
    by simp
qed

lemma log_all_keeps_newest:
  assumes "enabled (config_m core)"
    and "\<forall>er \<in> set ers. level_rank (min_level (config_m core)) \<le> level_rank (level (snd er))"
    and "0 < max_buffer_size (config_m core)"
    and "max_buffer_size (config_m core) < batch_size (config_m core)"
    and "length (batch_m core) \<le> max_buffer_size (config_m core)"
  shows "log_all p core ers =
    (core\<lparr>batch_m :=
        drop (length (batch_m core) + length ers - max_buffer_size (config_m core))
          (batch_m core @ map (\<lambda>er. serialize_record (config_m core) p (snd er)) ers)\<rparr>, [])"
  using assms
proof (induction ers arbitrary: core)
  case Nil
  then show ?case by simp
next
  case (Cons er ers)
  obtain e r where er: "er = (e, r)"
    by (cases er)
  let ?m = "max_buffer_size (config_m core)"
  let ?x = "serialize_record (config_m core) p r"
  let ?b' = "(if ?m \<le> length (batch_m core) then tl (batch_m core) else batch_m core) @ [?x]"
  let ?core1 = "core\<lparr>batch_m := ?b'\<rparr>"
  have b': "batch_m (fst (log_locked p core r)) = ?b'"
    using Cons.prems(3) by simp
  have len: "length ?b' \<le> ?m"
    using log_locked_bound [OF Cons.prems(3) Cons.prems(5), of p r] Cons.prems(3)
    by (simp split: if_splits)
  have acc: "level_rank (min_level (config_m core)) \<le> level_rank (level r)"
    using Cons.prems(2) er by simp
  have c1: "fst (log_locked p core r) = ?core1"
    using log_locked_eq [of p core r] b' by simp
  have nf: "\<not> snd (log_locked p core r)"
    using len Cons.prems(4) b' by (simp del: log_locked_fields(3))
  have step: "log p e core r = (?core1, [])"
    using log_accepted [OF Cons.prems(1) acc, of p e] nf c1 by simp
  have "log_all p ?core1 ers =
    (?core1\<lparr>batch_m :=
        drop (length (batch_m ?core1) + length ers - max_buffer_size (config_m ?core1))
          (batch_m ?core1 @ map (\<lambda>er. serialize_record (config_m ?core1) p (snd er)) ers)\<rparr>, [])"
    using Cons.prems len by (intro Cons.IH) simp_all
  then have rest: "log_all p ?core1 ers =
    (core\<lparr>batch_m := drop (length ?b' + length ers - ?m)
        (?b' @ map (\<lambda>er. serialize_record (config_m core) p (snd er)) ers)\<rparr>, [])"
    by simp
  have "drop (length ?b' + length ers - ?m)
          (?b' @ map (\<lambda>er. serialize_record (config_m core) p (snd er)) ers) =
        drop (length (batch_m core) + Suc (length ers) - ?m)
          (batch_m core @ ?x # map (\<lambda>er. serialize_record (config_m core) p (snd er)) ers)"
    using Cons.prems(3) Cons.prems(5) by (rule drop_oldest_step)
  with rest step show ?case
    by (simp add: er)
qed

lemma log_accepted_no_flush:
  assumes "enabled (config_m core)"
    and "level_rank (min_level (config_m core)) \<le> level_rank (level r)"
    and "\<not> (0 < max_buffer_size (config_m core) \<and>
            max_buffer_size (config_m core) \<le> length (batch_m core))"
    and "Suc (length (batch_m core)) < batch_size (config_m core)"
  shows "log p e core r =
    (core\<lparr>batch_m := batch_m core @ [serialize_record (config_m core) p r]\<rparr>, [])"
proof -
  have b: "batch_m (fst (log_locked p core r)) =
      batch_m core @ [serialize_record (config_m core) p r]"
    using assms(3) by auto
  then have "fst (log_locked p core r) =
      core\<lparr>batch_m := batch_m core @ [serialize_record (config_m core) p r]\<rparr>"
    using log_locked_eq [of p core r] by simp
  moreover have "\<not> snd (log_locked p core r)"
    using assms(4) b by (simp del: log_locked_fields(3))
  ultimately show ?thesis
    using log_accepted [OF assms(1) assms(2), of p e] by simp
qed

text \<open>
  C1. With a positive \<open>max_buffer_size\<close>, a buffer within the bound stays within it
  through the locked block of \<open>log\<close>, through \<open>log\<close> and through every sequence of
  \<open>log\<close> calls, and a new engine starts with the empty buffer. A locked block that
  finds the buffer at capacity removes its first entry only and appends the new
  serialized record at the end; below capacity it only appends. When every record is
  accepted and \<open>batch_size\<close> is above \<open>max_buffer_size\<close> (no size-triggered flush,
  as in the scenario, which takes 100 and 200), the buffer after a sequence of calls
  is the last \<open>max_buffer_size\<close> entries of the old buffer followed by the new
  records, in order; after 200 calls on an empty buffer these are the records 100 to
  199.
\<close>

theorem log_buffer_bounded_drop_oldest:
  "(0 < max_buffer_size (config_m core) \<and> length (batch_m core) \<le> max_buffer_size (config_m core) \<longrightarrow>
      length (batch_m (fst (log_locked p core r))) \<le> max_buffer_size (config_m core) \<and>
      length (batch_m (fst (log p e core r))) \<le> max_buffer_size (config_m core) \<and>
      length (batch_m (fst (log_all p core ers))) \<le> max_buffer_size (config_m core)) \<and>
   batch_m (DrtraceCore_init config curl_ok) = [] \<and>
   (0 < max_buffer_size (config_m core) \<and> max_buffer_size (config_m core) \<le> length (batch_m core) \<longrightarrow>
      batch_m (fst (log_locked p core r)) =
        tl (batch_m core) @ [serialize_record (config_m core) p r]) \<and>
   (length (batch_m core) < max_buffer_size (config_m core) \<longrightarrow>
      batch_m (fst (log_locked p core r)) =
        batch_m core @ [serialize_record (config_m core) p r]) \<and>
   (enabled (config_m core) \<and>
    (\<forall>er \<in> set ers. level_rank (min_level (config_m core)) \<le> level_rank (level (snd er))) \<and>
    0 < max_buffer_size (config_m core) \<and>
    max_buffer_size (config_m core) < batch_size (config_m core) \<and>
    length (batch_m core) \<le> max_buffer_size (config_m core) \<longrightarrow>
      log_all p core ers =
        (core\<lparr>batch_m :=
           drop (length (batch_m core) + length ers - max_buffer_size (config_m core))
             (batch_m core @ map (\<lambda>er. serialize_record (config_m core) p (snd er)) ers)\<rparr>, [])) \<and>
   (enabled (config_m core) \<and>
    (\<forall>er \<in> set ers. level_rank (min_level (config_m core)) \<le> level_rank (level (snd er))) \<and>
    max_buffer_size (config_m core) = 100 \<and> batch_size (config_m core) = 200 \<and>
    batch_m core = [] \<and> length ers = 200 \<longrightarrow>
      batch_m (fst (log_all p core ers)) =
        map (\<lambda>er. serialize_record (config_m core) p (snd er)) (drop 100 ers) \<and>
      length (batch_m (fst (log_all p core ers))) = 100)"
proof (intro conjI impI; (elim conjE)?)
  show "length (batch_m (fst (log_locked p core r))) \<le> max_buffer_size (config_m core)"
    if "0 < max_buffer_size (config_m core)" "length (batch_m core) \<le> max_buffer_size (config_m core)"
    using that by (rule log_locked_bound)
  show "length (batch_m (fst (log p e core r))) \<le> max_buffer_size (config_m core)"
    if "0 < max_buffer_size (config_m core)" "length (batch_m core) \<le> max_buffer_size (config_m core)"
    using that by (rule log_bound)
  show "length (batch_m (fst (log_all p core ers))) \<le> max_buffer_size (config_m core)"
    if "0 < max_buffer_size (config_m core)" "length (batch_m core) \<le> max_buffer_size (config_m core)"
    using that by (rule log_all_bound)
  show "batch_m (DrtraceCore_init config curl_ok) = []"
    by (simp add: DrtraceCore_init_def)
  show "batch_m (fst (log_locked p core r)) = tl (batch_m core) @ [serialize_record (config_m core) p r]"
    if "0 < max_buffer_size (config_m core)" "max_buffer_size (config_m core) \<le> length (batch_m core)"
    using that by simp
  show "batch_m (fst (log_locked p core r)) = batch_m core @ [serialize_record (config_m core) p r]"
    if "length (batch_m core) < max_buffer_size (config_m core)"
    using that by simp
  show "log_all p core ers =
        (core\<lparr>batch_m :=
           drop (length (batch_m core) + length ers - max_buffer_size (config_m core))
             (batch_m core @ map (\<lambda>er. serialize_record (config_m core) p (snd er)) ers)\<rparr>, [])"
    if "enabled (config_m core)"
      "\<forall>er \<in> set ers. level_rank (min_level (config_m core)) \<le> level_rank (level (snd er))"
      "0 < max_buffer_size (config_m core)"
      "max_buffer_size (config_m core) < batch_size (config_m core)"
      "length (batch_m core) \<le> max_buffer_size (config_m core)"
    using that by (rule log_all_keeps_newest)
  have scenario: "log_all p core ers =
        (core\<lparr>batch_m := map (\<lambda>er. serialize_record (config_m core) p (snd er)) (drop 100 ers)\<rparr>, [])"
    if "enabled (config_m core)"
      "\<forall>er \<in> set ers. level_rank (min_level (config_m core)) \<le> level_rank (level (snd er))"
      "max_buffer_size (config_m core) = 100" "batch_size (config_m core) = 200"
      "batch_m core = []" "length ers = 200"
    using log_all_keeps_newest [of core ers p] that by (simp add: drop_map)
  show "batch_m (fst (log_all p core ers)) =
        map (\<lambda>er. serialize_record (config_m core) p (snd er)) (drop 100 ers)"
    if "enabled (config_m core)"
      "\<forall>er \<in> set ers. level_rank (min_level (config_m core)) \<le> level_rank (level (snd er))"
      "max_buffer_size (config_m core) = 100" "batch_size (config_m core) = 200"
      "batch_m core = []" "length ers = 200"
    using scenario [OF that] by simp
  show "length (batch_m (fst (log_all p core ers))) = 100"
    if "enabled (config_m core)"
      "\<forall>er \<in> set ers. level_rank (min_level (config_m core)) \<le> level_rank (level (snd er))"
      "max_buffer_size (config_m core) = 100" "batch_size (config_m core) = 200"
      "batch_m core = []" "length ers = 200"
    using scenario [OF that] that(6) by simp
qed

text \<open>
  C2. \<open>log\<close> returns the engine unchanged, with no event, when the engine is
  disabled or the record's level is strictly below \<open>min_level\<close>. When the engine is
  enabled and the level is at or above \<open>min_level\<close>, the locked block appends the
  serialized record to the buffer (after dropping the oldest entry at capacity), and
  \<open>log\<close> is that block followed by a flush exactly when the buffer has reached
  \<open>batch_size\<close>. With \<open>min_level\<close> WARN, on an empty buffer that neither flushes
  nor evicts within three records, one record at each of the five levels leaves
  exactly the warn, error and critical records in the buffer, in that order.
\<close>

theorem log_level_filter:
  "(\<not> enabled (config_m core) \<or> level_rank (level r) < level_rank (min_level (config_m core)) \<longrightarrow>
      log p e core r = (core, [])) \<and>
   (enabled (config_m core) \<and> level_rank (min_level (config_m core)) \<le> level_rank (level r) \<longrightarrow>
      batch_m (fst (log_locked p core r)) =
        (if 0 < max_buffer_size (config_m core) \<and>
            max_buffer_size (config_m core) \<le> length (batch_m core)
         then tl (batch_m core) else batch_m core) @ [serialize_record (config_m core) p r] \<and>
      log p e core r =
        (if batch_size (config_m core) \<le> length (batch_m (fst (log_locked p core r)))
         then flush_internal e (fst (log_locked p core r))
         else (fst (log_locked p core r), []))) \<and>
   (enabled (config_m core) \<and> min_level (config_m core) = WARN \<and> batch_m core = [] \<and>
    3 < batch_size (config_m core) \<and>
    (max_buffer_size (config_m core) = 0 \<or> 3 \<le> max_buffer_size (config_m core)) \<and>
    level r1 = DEBUG \<and> level r2 = INFO \<and> level r3 = WARN \<and> level r4 = ERROR \<and>
    level r5 = CRITICAL \<longrightarrow>
      log_all p core [(e1, r1), (e2, r2), (e3, r3), (e4, r4), (e5, r5)] =
        (core\<lparr>batch_m :=
           [serialize_record (config_m core) p r3, serialize_record (config_m core) p r4,
            serialize_record (config_m core) p r5]\<rparr>, []))"
proof (intro conjI impI; (elim conjE)?)
  show "log p e core r = (core, [])"
    if "\<not> enabled (config_m core) \<or> level_rank (level r) < level_rank (min_level (config_m core))"
    using that by (rule log_skipped)
  show "batch_m (fst (log_locked p core r)) =
        (if 0 < max_buffer_size (config_m core) \<and>
            max_buffer_size (config_m core) \<le> length (batch_m core)
         then tl (batch_m core) else batch_m core) @ [serialize_record (config_m core) p r]"
    by simp
  show "log p e core r =
        (if batch_size (config_m core) \<le> length (batch_m (fst (log_locked p core r)))
         then flush_internal e (fst (log_locked p core r))
         else (fst (log_locked p core r), []))"
    if "enabled (config_m core)" "level_rank (min_level (config_m core)) \<le> level_rank (level r)"
    using log_accepted [OF that, of p e] by (simp del: log_locked_fields(3))
  show "log_all p core [(e1, r1), (e2, r2), (e3, r3), (e4, r4), (e5, r5)] =
        (core\<lparr>batch_m :=
           [serialize_record (config_m core) p r3, serialize_record (config_m core) p r4,
            serialize_record (config_m core) p r5]\<rparr>, [])"
    if en: "enabled (config_m core)" and ml: "min_level (config_m core) = WARN"
      and b: "batch_m core = []" and bs: "3 < batch_size (config_m core)"
      and mb: "max_buffer_size (config_m core) = 0 \<or> 3 \<le> max_buffer_size (config_m core)"
      and l: "level r1 = DEBUG" "level r2 = INFO" "level r3 = WARN" "level r4 = ERROR"
        "level r5 = CRITICAL"
  proof -
    let ?s = "serialize_record (config_m core) p"
    have s1: "log p e1 core r1 = (core, [])"
      using ml l by (intro log_skipped) simp
    have s2: "log p e2 core r2 = (core, [])"
      using ml l by (intro log_skipped) simp
    have s3: "log p e3 core r3 = (core\<lparr>batch_m := [?s r3]\<rparr>, [])"
      using log_accepted_no_flush [of core r3 p e3] en ml b bs mb l by auto
    have s4: "log p e4 (core\<lparr>batch_m := [?s r3]\<rparr>) r4 = (core\<lparr>batch_m := [?s r3, ?s r4]\<rparr>, [])"
      using log_accepted_no_flush [of "core\<lparr>batch_m := [?s r3]\<rparr>" r4 p e4] en ml b bs mb l by auto
    have s5: "log p e5 (core\<lparr>batch_m := [?s r3, ?s r4]\<rparr>) r5 =
        (core\<lparr>batch_m := [?s r3, ?s r4, ?s r5]\<rparr>, [])"
      using log_accepted_no_flush [of "core\<lparr>batch_m := [?s r3, ?s r4]\<rparr>" r5 p e5] en ml b bs mb l
      by auto
    show ?thesis
      by (simp add: s1 s2 s3 s4 s5)
  qed
qed

lemma core_bp_fields [simp]:
  "enabled (config_m (core_bp m bs))"
  "min_level (config_m (core_bp m bs)) = DEBUG"
  "max_buffer_size (config_m (core_bp m bs)) = m"
  "batch_size (config_m (core_bp m bs)) = bs"
  "batch_m (core_bp m bs) = []"
  by (simp_all add: core_bp_def DrtraceCore_init_def default_config_def)

lemma core_warn_fields [simp]:
  "enabled (config_m core_warn)"
  "min_level (config_m core_warn) = WARN"
  "max_buffer_size (config_m core_warn) = 10000"
  "batch_size (config_m core_warn) = 100"
  "batch_m core_warn = []"
  by (simp_all add: core_warn_def DrtraceCore_init_def default_config_def)

lemma core_disabled_fields [simp]: "\<not> enabled (config_m core_disabled)"
  by (simp add: core_disabled_def DrtraceCore_init_def default_config_def)

lemma record0_level [simp]: "level (record0 lv msg) = lv"
  by (simp add: record0_def)

theorem log_buffer_bounded_drop_oldest_witness:
  "batch_m (fst (log_all platform0 (core_bp 100 200) (replicate 200 (net0, record0 INFO ''m'')))) =
     replicate 100 (serialize_record (config_m (core_bp 100 200)) platform0 (record0 INFO ''m'')) \<and>
   length (batch_m (fst (log_all platform0 (core_bp 100 200)
     (replicate 200 (net0, record0 INFO ''m''))))) = 100 \<and>
   log_all platform0 (core_bp 2 4)
     [(net0, record0 INFO ''a''), (net0, record0 WARN ''b''), (net0, record0 ERROR ''c'')] =
     ((core_bp 2 4)\<lparr>batch_m :=
        [serialize_record (config_m (core_bp 2 4)) platform0 (record0 WARN ''b''),
         serialize_record (config_m (core_bp 2 4)) platform0 (record0 ERROR ''c'')]\<rparr>, []) \<and>
   batch_m (fst (log_locked platform0 ((core_bp 2 4)\<lparr>batch_m := [''x'', ''y'']\<rparr>) (record0 INFO ''a''))) =
     [''y'', serialize_record (config_m (core_bp 2 4)) platform0 (record0 INFO ''a'')] \<and>
   batch_m (fst (log_locked platform0 ((core_bp 2 4)\<lparr>batch_m := [''x'']\<rparr>) (record0 INFO ''a''))) =
     [''x'', serialize_record (config_m (core_bp 2 4)) platform0 (record0 INFO ''a'')] \<and>
   length (batch_m (fst (log platform0 net0 ((core_bp 2 4)\<lparr>batch_m := [''x'', ''y'']\<rparr>)
     (record0 INFO ''a'')))) \<le> 2"
  using log_buffer_bounded_drop_oldest [where core = "core_bp 100 200" and p = platform0
      and ers = "replicate 200 (net0, record0 INFO ''m'')" and e = net0 and r = "record0 INFO ''m''"
      and config = default_config and curl_ok = True]
    log_buffer_bounded_drop_oldest [where core = "core_bp 2 4" and p = platform0
      and ers = "[(net0, record0 INFO ''a''), (net0, record0 WARN ''b''), (net0, record0 ERROR ''c'')]"
      and e = net0 and r = "record0 INFO ''a''"
      and config = default_config and curl_ok = True]
    log_buffer_bounded_drop_oldest [where core = "(core_bp 2 4)\<lparr>batch_m := [''x'', ''y'']\<rparr>"
      and p = platform0 and ers = "[]" and e = net0 and r = "record0 INFO ''a''"
      and config = default_config and curl_ok = True]
    log_buffer_bounded_drop_oldest [where core = "(core_bp 2 4)\<lparr>batch_m := [''x'']\<rparr>"
      and p = platform0 and ers = "[]" and e = net0 and r = "record0 INFO ''a''"
      and config = default_config and curl_ok = True]
  by (simp del: log_locked_fields log_all.simps)

theorem log_level_filter_witness:
  "log platform0 net0 core_disabled (record0 CRITICAL ''c'') = (core_disabled, []) \<and>
   log platform0 net0 core_warn (record0 INFO ''i'') = (core_warn, []) \<and>
   batch_m (fst (log_locked platform0 core_warn (record0 WARN ''w''))) =
     [serialize_record (config_m core_warn) platform0 (record0 WARN ''w'')] \<and>
   log platform0 net0 core_warn (record0 WARN ''w'') =
     (fst (log_locked platform0 core_warn (record0 WARN ''w'')), []) \<and>
   log_all platform0 core_warn
     [(net0, record0 DEBUG ''d''), (net0, record0 INFO ''i''), (net0, record0 WARN ''w''),
      (net0, record0 ERROR ''e''), (net0, record0 CRITICAL ''c'')] =
     (core_warn\<lparr>batch_m :=
        [serialize_record (config_m core_warn) platform0 (record0 WARN ''w''),
         serialize_record (config_m core_warn) platform0 (record0 ERROR ''e''),
         serialize_record (config_m core_warn) platform0 (record0 CRITICAL ''c'')]\<rparr>, [])"
  using log_level_filter [where core = core_disabled and p = platform0 and e = net0
      and r = "record0 CRITICAL ''c''" and ?r1.0 = "record0 DEBUG ''d''"
      and ?r2.0 = "record0 INFO ''i''" and ?r3.0 = "record0 WARN ''w''"
      and ?r4.0 = "record0 ERROR ''e''" and ?r5.0 = "record0 CRITICAL ''c''"
      and ?e1.0 = net0 and ?e2.0 = net0 and ?e3.0 = net0 and ?e4.0 = net0 and ?e5.0 = net0]
    log_level_filter [where core = core_warn and p = platform0 and e = net0
      and r = "record0 INFO ''i''" and ?r1.0 = "record0 DEBUG ''d''"
      and ?r2.0 = "record0 INFO ''i''" and ?r3.0 = "record0 WARN ''w''"
      and ?r4.0 = "record0 ERROR ''e''" and ?r5.0 = "record0 CRITICAL ''c''"
      and ?e1.0 = net0 and ?e2.0 = net0 and ?e3.0 = net0 and ?e4.0 = net0 and ?e5.0 = net0]
    log_level_filter [where core = core_warn and p = platform0 and e = net0
      and r = "record0 WARN ''w''" and ?r1.0 = "record0 DEBUG ''d''"
      and ?r2.0 = "record0 INFO ''i''" and ?r3.0 = "record0 WARN ''w''"
      and ?r4.0 = "record0 ERROR ''e''" and ?r5.0 = "record0 CRITICAL ''c''"
      and ?e1.0 = net0 and ?e2.0 = net0 and ?e3.0 = net0 and ?e4.0 = net0 and ?e5.0 = net0]
  by (simp del: log_locked_fields log_all.simps)

section \<open>Properties of serialization\<close>

lemma escape_json_append: "escape_json (a @ b) = escape_json a @ escape_json b"
  by (induction a) simp_all

lemma hex_val_hex_digit: "d < 16 \<Longrightarrow> hex_val (hex_digit d) = Some d"
  by (auto simp add: hex_val_def hex_digit_def Let_def of_char_of)

lemma replicate_small:
  "replicate 3 x = [x, x, x]" "replicate 2 x = [x, x]"
  by (simp_all add: eval_nat_numeral)

lemma hex_of_control:
  assumes "n < 32"
  shows "setw_fill 4 CHR ''0'' (hex_of_nat n) =
    [CHR ''0'', CHR ''0'', hex_digit (n div 16), hex_digit (n mod 16)]"
proof (cases "n < 16")
  case True
  then have "hex_of_nat n = [hex_digit n]"
    by (subst hex_of_nat.simps) simp
  moreover have "hex_digit 0 = CHR ''0''"
    by (simp add: hex_digit_def char_of_def bit_simps)
  ultimately show ?thesis
    using True by (simp add: setw_fill_def replicate_small)
next
  case False
  with assms have d: "n div 16 = 1"
    by simp
  have "hex_of_nat (n div 16) = [hex_digit (n div 16)]"
    unfolding d by (subst hex_of_nat.simps) simp
  with False have "hex_of_nat n = [hex_digit (n div 16), hex_digit (n mod 16)]"
    by (subst hex_of_nat.simps) simp
  then show ?thesis
    by (simp add: setw_fill_def replicate_small)
qed

lemma unescape_u_control:
  assumes "(of_char c :: nat) < 32"
  shows "unescape_u CHR ''0'' CHR ''0'' (hex_digit (of_char c div 16)) (hex_digit (of_char c mod 16))
    = Some [c]"
proof -
  let ?n = "of_char c :: nat"
  have z: "hex_val CHR ''0'' = Some 0"
    by (simp add: hex_val_def)
  have a: "hex_val (hex_digit (?n div 16)) = Some (?n div 16)"
    using assms by (intro hex_val_hex_digit) simp
  have b: "hex_val (hex_digit (?n mod 16)) = Some (?n mod 16)"
    by (intro hex_val_hex_digit) simp
  have "((0 * 16 + 0) * 16 + ?n div 16) * 16 + ?n mod 16 = ?n"
    by simp
  with assms show ?thesis
    by (simp add: unescape_u_def z a b utf8_encode_def)
qed

lemma escape_char_cases:
  obtains (quote) "c = CHR 0x22" | (backslash) "c = CHR 0x5C"
  | (b) "c = CHR 0x08" | (f) "c = CHR 0x0C" | (n) "c = CHR 0x0A" | (r) "c = CHR 0x0D"
  | (t) "c = CHR 0x09"
  | (control) "(of_char c :: nat) < 0x20" "c \<noteq> CHR 0x08" "c \<noteq> CHR 0x0C" "c \<noteq> CHR 0x0A"
      "c \<noteq> CHR 0x0D" "c \<noteq> CHR 0x09"
  | (other) "0x20 \<le> (of_char c :: nat)" "c \<noteq> CHR 0x22" "c \<noteq> CHR 0x5C"
  by (cases "(of_char c :: nat) < 0x20") auto

lemma escape_char_control:
  assumes "(of_char c :: nat) < 0x20" "c \<noteq> CHR 0x08" "c \<noteq> CHR 0x0C" "c \<noteq> CHR 0x0A"
      "c \<noteq> CHR 0x0D" "c \<noteq> CHR 0x09"
  shows "escape_char c =
    [CHR 0x5C, CHR ''u'', CHR ''0'', CHR ''0'', hex_digit (of_char c div 16),
     hex_digit (of_char c mod 16)]"
proof -
  from assms(1) have "c \<noteq> CHR 0x22" "c \<noteq> CHR 0x5C"
    by auto
  with assms show ?thesis
    by (simp add: escape_char_def hex_of_control)
qed

lemma escape_char_other:
  assumes "0x20 \<le> (of_char c :: nat)" "c \<noteq> CHR 0x22" "c \<noteq> CHR 0x5C"
  shows "escape_char c = [c]"
proof -
  from assms(1) have "c \<noteq> CHR 0x08" "c \<noteq> CHR 0x0C" "c \<noteq> CHR 0x0A" "c \<noteq> CHR 0x0D" "c \<noteq> CHR 0x09"
    by auto
  with assms show ?thesis
    by (simp add: escape_char_def)
qed

lemma read_string_body_escape:
  "read_string_body (escape_json s @ CHR 0x22 # rest) = Some (s, rest)"
proof (induction s)
  case Nil
  then show ?case by simp
next
  case (Cons c s)
  show ?case
  proof (cases c rule: escape_char_cases)
    case control
    then show ?thesis
      using Cons.IH by (simp add: escape_char_control unescape_u_control)
  next
    case other
    then show ?thesis
      using Cons.IH by (simp add: escape_char_other)
  qed (simp_all add: Cons.IH escape_char_def unescape_simple_def)
qed

lemma read_string_quoted: "read_string (quoted k @ rest) = Some (k, rest)"
  by (simp add: read_string_def quoted_def read_string_body_escape)

lemma reads_as_string: "reads_as (quoted s) (JString s)"
  by (simp add: reads_as_def read_value_def quoted_def read_string_body_escape)

lemma number_char_not_structural:
  "is_number_char c \<Longrightarrow> c \<noteq> CHR 0x22 \<and> c \<noteq> CHR ''{''"
  by (auto simp add: is_number_char_def isdigit_c_def)

lemma separators_not_number: "\<not> is_number_char CHR '',''" "\<not> is_number_char CHR ''}''"
  by (simp_all add: is_number_char_def isdigit_c_def)

lemma reads_as_number:
  assumes "number_text nt"
  shows "reads_as nt (JNumber nt)"
  unfolding reads_as_def
proof (intro allI impI)
  fix d rest
  assume d: "d = CHR '','' \<or> d = CHR ''}''"
  then have nd: "\<not> is_number_char d"
    using separators_not_number by auto
  from assms obtain c cs where nt: "nt = c # cs" and all: "list_all is_number_char nt"
    by (cases nt) (auto simp add: number_text_def)
  then have c: "c \<noteq> CHR 0x22" "c \<noteq> CHR ''{''"
    using number_char_not_structural [of c] by auto
  have tw: "takeWhile is_number_char (nt @ d # rest) = nt"
    using all nd by (simp add: takeWhile_append2 list_all_iff)
  have dw: "dropWhile is_number_char (nt @ d # rest) = d # rest"
    using all nd by (simp add: dropWhile_append2 list_all_iff)
  have "read_number (nt @ d # rest) = Some (nt, d # rest)"
    unfolding read_number_def Let_def tw dw using nt by simp
  then show "read_value (nt @ d # rest) = Some (JNumber nt, d # rest)"
    using c nt by (simp add: read_value_def)
qed

lemma read_string_members_text:
  "read_string_members
     (member_text k (quoted v) @ rest_text (map (\<lambda>(k, v). (k, quoted v)) kvs) @ CHR ''}'' # rest) =
   Some ((k, JString v) # map (\<lambda>(k, v). (k, JString v)) kvs, rest)"
proof (induction kvs arbitrary: k v)
  case Nil
  show ?case
    by (subst read_string_members.simps)
      (simp add: member_text_def rest_text_def read_string_quoted)
next
  case (Cons kv kvs)
  obtain k' v' where kv: "kv = (k', v')"
    by (cases kv)
  have r: "rest_text (map (\<lambda>(k, v). (k, quoted v)) (kv # kvs)) @ CHR ''}'' # rest =
      CHR '','' # member_text k' (quoted v') @
        rest_text (map (\<lambda>(k, v). (k, quoted v)) kvs) @ CHR ''}'' # rest"
    by (simp add: kv rest_text_def)
  show ?case
    unfolding r
    by (subst read_string_members.simps)
      (simp add: member_text_def [of k] read_string_quoted Cons.IH kv)
qed

lemma read_members_text:
  "reads_as vt v \<Longrightarrow> list_all (\<lambda>(k, vt, v). reads_as vt v) ms \<Longrightarrow>
   read_members
     (member_text k vt @ rest_text (map (\<lambda>(k, vt, v). (k, vt)) ms) @ CHR ''}'' # rest) =
   Some ((k, v) # map (\<lambda>(k, vt, v). (k, v)) ms, rest)"
proof (induction ms arbitrary: k vt v)
  case Nil
  then have "read_value (vt @ CHR ''}'' # rest) = Some (v, CHR ''}'' # rest)"
    by (simp add: reads_as_def)
  then show ?case
    by (subst read_members.simps)
      (simp add: member_text_def rest_text_def read_string_quoted)
next
  case (Cons m ms)
  obtain k' vt' v' where m: "m = (k', vt', v')"
    by (cases m)
  let ?tail = "member_text k' vt' @ rest_text (map (\<lambda>(k, vt, v). (k, vt)) ms) @ CHR ''}'' # rest"
  have r: "rest_text (map (\<lambda>(k, vt, v). (k, vt)) (m # ms)) @ CHR ''}'' # rest = CHR '','' # ?tail"
    by (simp add: m rest_text_def)
  from Cons.prems(1) have v: "read_value (vt @ CHR '','' # ?tail) = Some (v, CHR '','' # ?tail)"
    by (simp add: reads_as_def)
  from Cons.prems(2) have "reads_as vt' v'" "list_all (\<lambda>(k, vt, v). reads_as vt v) ms"
    by (simp_all add: m)
  then have ih: "read_members ?tail = Some ((k', v') # map (\<lambda>(k, vt, v). (k, v)) ms, rest)"
    by (rule Cons.IH)
  show ?case
    unfolding r
    by (subst read_members.simps) (simp add: member_text_def [of k] read_string_quoted v ih m)
qed

lemma escape_json_plain: "plain_text s \<Longrightarrow> escape_json s = s"
  by (induction s) (simp_all add: plain_text_def plain_char_def escape_char_other)

lemma context_entries_text:
  "context_entries kvs = rest_text (map (\<lambda>(k, v). (k, quoted v)) kvs)"
  by (induction kvs) (auto simp add: rest_text_def member_text_def quoted_def)

lemma reads_as_context:
  assumes "plain_text (thread_id_text p)"
  shows "reads_as (context_text p r) (context_value p r)"
  unfolding reads_as_def
proof (intro allI impI)
  fix d rest
  let ?kvs = "(''thread_id'', thread_id_text p) # context_kv r"
  let ?body = "member_text ''language'' (quoted ''cpp'') @
      rest_text (map (\<lambda>(k, v). (k, quoted v)) ?kvs) @ CHR ''}'' # d # rest"
  have q: "quoted (thread_id_text p) = CHR 0x22 # thread_id_text p @ [CHR 0x22]"
    using assms by (simp add: quoted_def escape_json_plain)
  have t: "context_text p r @ d # rest = CHR ''{'' # ?body"
    by (simp add: context_text_def context_entries_text member_text_def rest_text_def q)
      (simp add: quoted_def escape_char_def)
  have h: "\<exists>s. ?body = CHR 0x22 # s"
    by (simp add: member_text_def quoted_def)
  have "read_string_members ?body =
      Some ((''language'', JString ''cpp'') # map (\<lambda>(k, v). (k, JString v)) ?kvs, d # rest)"
    by (rule read_string_members_text)
  then have "read_flat_object (CHR ''{'' # ?body) =
      Some ((''language'', JString ''cpp'') # map (\<lambda>(k, v). (k, JString v)) ?kvs, d # rest)"
    using h by (auto simp add: read_flat_object_def)
  then show "read_value (context_text p r @ d # rest) = Some (context_value p r, d # rest)"
    unfolding t by (simp add: read_value_def context_value_def)
qed

lemma digit_char: "d < 10 \<Longrightarrow> is_number_char (char_of (48 + d :: nat))"
  by (simp add: is_number_char_def isdigit_c_def of_char_of)

lemma dec_of_nat_number: "number_text (dec_of_nat n)"
proof (induction n rule: dec_of_nat.induct)
  case (1 n)
  show ?case
  proof (cases "n < 10")
    case True
    then show ?thesis
      by (subst dec_of_nat.simps) (simp add: number_text_def digit_char)
  next
    case False
    with 1 have "number_text (dec_of_nat (n div 10))"
      by simp
    with False show ?thesis
      by (subst dec_of_nat.simps) (simp add: number_text_def digit_char)
  qed
qed

lemma record_members_read:
  "plain_text (thread_id_text p) \<Longrightarrow>
   list_all (\<lambda>(k, vt, v). reads_as vt v) (record_members config p r)"
  by (simp add: record_members_def string_member_def reads_as_string reads_as_context
      reads_as_number dec_of_nat_number)

lemma serialize_record_text:
  "serialize_record config p r =
     CHR ''{'' # member_text ''ts'' (ts_text p (timestamp r)) @
     rest_text (map (\<lambda>(k, vt, v). (k, vt)) (record_members config p r)) @ ''}''"
  by (simp add: serialize_record_def record_members_def string_member_def member_text_def
      rest_text_def quoted_def context_text_def escape_char_def)

lemma read_record_serialized:
  assumes "number_text (ts_text p (timestamp r))" and "plain_text (thread_id_text p)"
  shows "read_record (serialize_record config p r) =
    Some ((''ts'', JNumber (ts_text p (timestamp r))) #
          map (\<lambda>(k, vt, v). (k, v)) (record_members config p r))"
proof -
  let ?body = "member_text ''ts'' (ts_text p (timestamp r)) @
     rest_text (map (\<lambda>(k, vt, v). (k, vt)) (record_members config p r)) @ CHR ''}'' # []"
  have "read_members ?body =
      Some ((''ts'', JNumber (ts_text p (timestamp r))) #
            map (\<lambda>(k, vt, v). (k, v)) (record_members config p r), [])"
    using assms by (intro read_members_text reads_as_number record_members_read)
  moreover have "\<exists>s. ?body = CHR 0x22 # s"
    by (simp add: member_text_def quoted_def)
  ultimately show ?thesis
    unfolding serialize_record_text by (auto simp add: read_record_def)
qed

lemma hex_digit_examples:
  "hex_digit (Suc 0) = CHR ''1''" "hex_digit 15 = CHR ''f''" "hex_digit 0 = CHR ''0''"
  by (simp_all add: hex_digit_def char_of_def bit_simps)

text \<open>The text written for a record that takes every branch of the serializer.\<close>

lemma serialize_record_example:
  \<open>serialize_record cfg1 platform0 rec1 =
     ''{"ts":0.000000,"level":"warn","message":"a'' @ [CHR 0x5C, CHR 0x22, CHR 0x5C, CHR 0x5C] @
     [CHR 0x5C] @ ''u0001'' @ [CHR 0x5C] @ ''n'' @ [CHR 0xC3, CHR 0xA9] @
     ''","application_id":"my app","module_name":"lg","service_name":"svc"'' @
     '',"file_path":"f.cpp","line_no":120'' @
     '',"context":{"language":"cpp","thread_id":"1","k1":"v1","thread_id":"7"}}''\<close>
  by code_simp

text \<open>
  C6. When the platform prints the time stamp as a number token and the thread
  identifier without quote, backslash or control character, reading the text that
  \<open>serialize_record\<close> emits succeeds, and the members level, message,
  application_id and module_name of the object read are the strings the record and the
  configuration hold: the level's name (debug, info, warn, error or critical, the
  name that \<open>parse_log_level\<close> reads back as that level), the message byte for
  byte, the application identifier and the logger name. Unescaping undoes \<open>escape_json\<close> on
  every byte string. \<open>escape_json\<close> works byte by byte: quote, backslash, backspace,
  form feed, newline, carriage return and tab become their two-character escapes, any
  other byte below \<open>0x20\<close> becomes \<open>\u00\<close> followed by its two lower-case
  hexadecimal digits, every other byte (multi-byte sequences included) stays.
\<close>

theorem serialize_round_trip:
  assumes "number_text (ts_text p (timestamp r))" and "plain_text (thread_id_text p)"
  shows
    "(\<exists>ms. read_record (serialize_record config p r) = Some ms \<and>
        map_of ms ''level'' =
          Some (JString (case level r of
                           DEBUG \<Rightarrow> ''debug'' | INFO \<Rightarrow> ''info'' | WARN \<Rightarrow> ''warn''
                         | ERROR \<Rightarrow> ''error'' | CRITICAL \<Rightarrow> ''critical'')) \<and>
        map_of ms ''message'' = Some (JString (message r)) \<and>
        map_of ms ''application_id'' = Some (JString (application_id config)) \<and>
        map_of ms ''module_name'' = Some (JString (logger_name r))) \<and>
     parse_log_level (Some (level_str (level r))) = level r \<and>
     read_string_body (escape_json s @ CHR 0x22 # rest) = Some (s, rest) \<and>
     escape_json (a @ b) = escape_json a @ escape_json b \<and>
     escape_json [CHR 0x22] = [CHR 0x5C, CHR 0x22] \<and>
     escape_json [CHR 0x5C] = [CHR 0x5C, CHR 0x5C] \<and>
     escape_json [CHR 0x08] = [CHR 0x5C, CHR ''b''] \<and>
     escape_json [CHR 0x0C] = [CHR 0x5C, CHR ''f''] \<and>
     escape_json [CHR 0x0A] = [CHR 0x5C, CHR ''n''] \<and>
     escape_json [CHR 0x0D] = [CHR 0x5C, CHR ''r''] \<and>
     escape_json [CHR 0x09] = [CHR 0x5C, CHR ''t''] \<and>
     ((of_char c :: nat) < 0x20 \<and> c \<noteq> CHR 0x08 \<and> c \<noteq> CHR 0x0C \<and> c \<noteq> CHR 0x0A \<and>
      c \<noteq> CHR 0x0D \<and> c \<noteq> CHR 0x09 \<longrightarrow>
        escape_json [c] =
          [CHR 0x5C, CHR ''u'', CHR ''0'', CHR ''0'', hex_digit (of_char c div 16),
           hex_digit (of_char c mod 16)]) \<and>
     (0x20 \<le> (of_char c :: nat) \<and> c \<noteq> CHR 0x22 \<and> c \<noteq> CHR 0x5C \<longrightarrow> escape_json [c] = [c])"
proof (intro conjI impI; (elim conjE)?)
  show "\<exists>ms. read_record (serialize_record config p r) = Some ms \<and>
        map_of ms ''level'' =
          Some (JString (case level r of
                           DEBUG \<Rightarrow> ''debug'' | INFO \<Rightarrow> ''info'' | WARN \<Rightarrow> ''warn''
                         | ERROR \<Rightarrow> ''error'' | CRITICAL \<Rightarrow> ''critical'')) \<and>
        map_of ms ''message'' = Some (JString (message r)) \<and>
        map_of ms ''application_id'' = Some (JString (application_id config)) \<and>
        map_of ms ''module_name'' = Some (JString (logger_name r))"
    using read_record_serialized [OF assms, of config]
    by (cases "level r") (simp_all add: record_members_def string_member_def)
  show "parse_log_level (Some (level_str (level r))) = level r"
    by (cases "level r") (simp_all add: parse_log_level_def tolower_c_def)
  show "read_string_body (escape_json s @ CHR 0x22 # rest) = Some (s, rest)"
    by (rule read_string_body_escape)
  show "escape_json (a @ b) = escape_json a @ escape_json b"
    by (rule escape_json_append)
  show "escape_json [c] =
          [CHR 0x5C, CHR ''u'', CHR ''0'', CHR ''0'', hex_digit (of_char c div 16),
           hex_digit (of_char c mod 16)]"
    if "(of_char c :: nat) < 0x20" "c \<noteq> CHR 0x08" "c \<noteq> CHR 0x0C" "c \<noteq> CHR 0x0A"
      "c \<noteq> CHR 0x0D" "c \<noteq> CHR 0x09"
    using that by (simp add: escape_char_control)
  show "escape_json [c] = [c]"
    if "0x20 \<le> (of_char c :: nat)" "c \<noteq> CHR 0x22" "c \<noteq> CHR 0x5C"
    using that by (simp add: escape_char_other)
qed (simp_all add: escape_char_def)

theorem serialize_round_trip_witness:
  "number_text (ts_text platform0 (timestamp rec1)) \<and> plain_text (thread_id_text platform0) \<and>
   (\<exists>ms. read_record (serialize_record cfg1 platform0 rec1) = Some ms \<and>
      map_of ms ''level'' = Some (JString ''warn'') \<and>
      map_of ms ''message'' =
        Some (JString [CHR ''a'', CHR 0x22, CHR 0x5C, CHR 0x01, CHR 0x0A, CHR 0xC3, CHR 0xA9]) \<and>
      map_of ms ''application_id'' = Some (JString ''my app'') \<and>
      map_of ms ''module_name'' = Some (JString ''lg'')) \<and>
   (\<exists>ms. read_record (serialize_record cfg1 platform0 (record0 DEBUG ''m'')) = Some ms \<and>
      map_of ms ''level'' = Some (JString ''debug'')) \<and>
   (\<exists>ms. read_record (serialize_record cfg1 platform0 (record0 INFO ''m'')) = Some ms \<and>
      map_of ms ''level'' = Some (JString ''info'')) \<and>
   (\<exists>ms. read_record (serialize_record cfg1 platform0 (record0 WARN ''m'')) = Some ms \<and>
      map_of ms ''level'' = Some (JString ''warn'')) \<and>
   (\<exists>ms. read_record (serialize_record cfg1 platform0 (record0 ERROR ''m'')) = Some ms \<and>
      map_of ms ''level'' = Some (JString ''error'')) \<and>
   (\<exists>ms. read_record (serialize_record cfg1 platform0 (record0 CRITICAL ''m'')) = Some ms \<and>
      map_of ms ''level'' = Some (JString ''critical'')) \<and>
   parse_log_level (Some (level_str CRITICAL)) = CRITICAL \<and>
   escape_json [CHR 0x1F] = [CHR 0x5C, CHR ''u'', CHR ''0'', CHR ''0'', CHR ''1'', CHR ''f''] \<and>
   escape_json [CHR 0xC3] = [CHR 0xC3] \<and> escape_json [CHR 0x7F] = [CHR 0x7F]"
proof -
  have n: "number_text (ts_text platform0 (timestamp x))" for x
    by (simp add: platform0_def number_text_def is_number_char_def isdigit_c_def)
  have t: "plain_text (thread_id_text platform0)"
    by (simp add: platform0_def plain_text_def plain_char_def)
  have main: "(\<exists>ms. read_record (serialize_record cfg1 platform0 rec1) = Some ms \<and>
      map_of ms ''level'' = Some (JString ''warn'') \<and>
      map_of ms ''message'' =
        Some (JString [CHR ''a'', CHR 0x22, CHR 0x5C, CHR 0x01, CHR 0x0A, CHR 0xC3, CHR 0xA9]) \<and>
      map_of ms ''application_id'' = Some (JString ''my app'') \<and>
      map_of ms ''module_name'' = Some (JString ''lg'')) \<and>
    escape_json [CHR 0x1F] = [CHR 0x5C, CHR ''u'', CHR ''0'', CHR ''0'', CHR ''1'', CHR ''f''] \<and>
    escape_json [CHR 0xC3] = [CHR 0xC3] \<and> escape_json [CHR 0x7F] = [CHR 0x7F]"
    using serialize_round_trip [OF n t, where config = cfg1 and r = rec1 and c = "CHR 0x1F"]
      serialize_round_trip [OF n t, where config = cfg1 and r = rec1 and c = "CHR 0xC3"]
      serialize_round_trip [OF n t, where config = cfg1 and r = rec1 and c = "CHR 0x7F"]
    by (simp add: rec1_def cfg1_def hex_digit_examples)
  have d: "\<exists>ms. read_record (serialize_record cfg1 platform0 (record0 DEBUG ''m'')) = Some ms \<and>
      map_of ms ''level'' = Some (JString ''debug'')"
    using serialize_round_trip [OF n t, where config = cfg1 and r = "record0 DEBUG ''m''"
        and s = "[]" and rest = "[]" and a = "[]" and b = "[]" and c = "CHR ''x''"]
    by auto
  have i: "\<exists>ms. read_record (serialize_record cfg1 platform0 (record0 INFO ''m'')) = Some ms \<and>
      map_of ms ''level'' = Some (JString ''info'')"
    using serialize_round_trip [OF n t, where config = cfg1 and r = "record0 INFO ''m''"
        and s = "[]" and rest = "[]" and a = "[]" and b = "[]" and c = "CHR ''x''"]
    by auto
  have w: "\<exists>ms. read_record (serialize_record cfg1 platform0 (record0 WARN ''m'')) = Some ms \<and>
      map_of ms ''level'' = Some (JString ''warn'')"
    using serialize_round_trip [OF n t, where config = cfg1 and r = "record0 WARN ''m''"
        and s = "[]" and rest = "[]" and a = "[]" and b = "[]" and c = "CHR ''x''"]
    by auto
  have e: "\<exists>ms. read_record (serialize_record cfg1 platform0 (record0 ERROR ''m'')) = Some ms \<and>
      map_of ms ''level'' = Some (JString ''error'')"
    using serialize_round_trip [OF n t, where config = cfg1 and r = "record0 ERROR ''m''"
        and s = "[]" and rest = "[]" and a = "[]" and b = "[]" and c = "CHR ''x''"]
    by auto
  have c: "\<exists>ms. read_record (serialize_record cfg1 platform0 (record0 CRITICAL ''m'')) = Some ms \<and>
      map_of ms ''level'' = Some (JString ''critical'')"
    using serialize_round_trip [OF n t, where config = cfg1 and r = "record0 CRITICAL ''m''"
        and s = "[]" and rest = "[]" and a = "[]" and b = "[]" and c = "CHR ''x''"]
    by auto
  have p: "parse_log_level (Some (level_str CRITICAL)) = CRITICAL"
    using serialize_round_trip [OF n t, where config = cfg1 and r = "record0 CRITICAL ''m''"
        and s = "[]" and rest = "[]" and a = "[]" and b = "[]" and c = "CHR ''x''"]
    by simp
  show ?thesis
    using main d i w e c p n [of rec1] t by simp
qed


end
